theory Spec2Isabelle
  imports Complex_Main "HOL-Library.Word"
begin

unbundle bit_operations_syntax

chapter \<open>The model of the code\<close>

section \<open>Errors\<close>

text \<open>
  The package reports failures in three ways: the exported error variables
  (\<open>ErrObjectOutOfBounds\<close> and friends, \<open>io.EOF\<close> and \<open>io.ErrUnexpectedEOF\<close>), errors built on the spot with
  \<open>fmt.Errorf\<close>, and panics (\<open>b.errorf\<close>, \<open>panic(...)\<close>, and the Go run time's
  own index-out-of-range panic). Each is a value of the type below; a function that can
  fail returns \<open>error + 'a\<close> with \<open>Inl\<close> for the failure.
\<close>

datatype error =
    ErrNotAValidStream
  | ErrNotAStream
  | ErrNotObjectStream
  | ErrMissingFirst
  | ErrExtendsNotValidStream
  | ErrObjectOutOfBounds
  | ErrUnexpectedValueType
  | ErrInvalidPassword
  | EOF
  | ErrUnexpectedEOF
  | Errorf string
  | Panic string

section \<open>Lexer: hex strings\<close>

text \<open>
  A Go \<open>byte\<close> of the input is an Isabelle \<open>char\<close> (eight bits). The buffer is the
  list of bytes still to be read. \<open>readByte\<close> at the end of the input returns a line feed
  when \<open>allowEOF\<close> is set (and keeps doing so on every later call), and panics through
  \<open>errorf\<close> otherwise.
\<close>

definition isSpace :: "char \<Rightarrow> bool" where
  "isSpace b = (b = CHR 0x00 \<or> b = CHR 0x09 \<or> b = CHR 0x0A \<or> b = CHR 0x0C
     \<or> b = CHR 0x0D \<or> b = CHR '' '')"

definition isDelim :: "char \<Rightarrow> bool" where
  "isDelim b = (b \<in> set ''<>()[]{}/%'')"

definition unhex :: "char \<Rightarrow> int" where
  "unhex b =
     (let n = (of_char b :: int) in
      if of_char CHR ''0'' \<le> n \<and> n \<le> of_char CHR ''9'' then n - of_char CHR ''0''
      else if of_char CHR ''a'' \<le> n \<and> n \<le> of_char CHR ''f'' then n - of_char CHR ''a'' + 10
      else if of_char CHR ''A'' \<le> n \<and> n \<le> of_char CHR ''F'' then n - of_char CHR ''A'' + 10
      else - 1)"

text \<open>
  \<open>readHexString\<close> is entered after the opening \<open><\<close> has been consumed. The two labels
  of the source, \<open>Loop\<close> (reading the first nibble \<open>c\<close>) and \<open>Loop2\<close> (reading the second
  nibble \<open>c2\<close>), are the two functions below. The result is \<open>None\<close> when the loop never
  ends: with \<open>allowEOF\<close> set and the input exhausted, \<open>readByte\<close> returns a line feed
  for ever, which both labels skip as white space.
\<close>

fun readHexString :: "bool \<Rightarrow> string \<Rightarrow> string \<Rightarrow> (error + string \<times> string) option"
  and readHexString2 :: "bool \<Rightarrow> char \<Rightarrow> string \<Rightarrow> string \<Rightarrow> (error + string \<times> string) option"
where
  "readHexString allowEOF tmp [] =
     (if allowEOF then None else Some (Inl (Panic ''malformed PDF: reading at offset'')))"
| "readHexString allowEOF tmp (c # buf) =
     (if c = CHR ''>'' then Some (Inr (tmp, buf))
      else if isSpace c then readHexString allowEOF tmp buf
      else readHexString2 allowEOF c tmp buf)"
| "readHexString2 allowEOF c tmp [] =
     (if allowEOF then None else Some (Inl (Panic ''malformed PDF: reading at offset'')))"
| "readHexString2 allowEOF c tmp (c2 # buf) =
     (if isSpace c2 then readHexString2 allowEOF c tmp buf
      else let x = push_bit 4 (unhex c) OR unhex c2 in
        if x < 0 then Some (Inl (Panic ''malformed hex string''))
        else readHexString allowEOF (tmp @ [char_of x]) buf)"

text \<open>What the hex string denotes: the digits taken two at a time, most significant first.\<close>

fun hexPairs :: "string \<Rightarrow> string" where
  "hexPairs (a # b # ds) = char_of (16 * unhex a + unhex b) # hexPairs ds"
| "hexPairs ds = []"

definition isHexDigit :: "char \<Rightarrow> bool" where
  "isHexDigit b = (0 \<le> unhex b)"

section \<open>Objects, cross-reference entries and values\<close>

text \<open>
  \<open>pdfobjptr\<close> is the struct of the same name: \<open>id uint32; gen uint16\<close>. The field
  \<open>id\<close> is written \<open>id'\<close> here, since \<open>id\<close> is the identity function of HOL.
\<close>

record pdfobjptr =
  id' :: "32 word"
  gen :: "16 word"

definition zeroptr :: pdfobjptr where
  "zeroptr = \<lparr>id' = 0, gen = 0\<rparr>"

text \<open>
  A \<open>pdfobject\<close> is what the Go code keeps in an \<open>interface{}\<close>: \<open>nil\<close>, \<open>bool\<close>,
  \<open>int64\<close>, \<open>float64\<close>, \<open>string\<close>, \<open>pdfname\<close>, \<open>pdfkeyword\<close>, \<open>pdfdict\<close>,
  \<open>pdfarray\<close>, \<open>pdfstream\<close> (header, owning pointer, offset), \<open>pdfobjptr\<close> and
  \<open>pdfobjdef\<close>. An \<open>int64\<close> is the integer it denotes and a \<open>float64\<close> the real it
  denotes; where the code narrows an integer (\<open>uint32(x)\<close>, \<open>uint16(gen)\<close>) the
  wrap-around is written out. A \<open>pdfdict\<close> is a Go map; it is given by an association
  list and read with \<open>map_of\<close>, a missing key reading as \<open>nil\<close>.
\<close>

datatype pdfobject =
    PNull
  | PBool bool
  | PInt int
  | PReal real
  | PString string
  | PName string
  | PKeyword string
  | PDict "(string \<times> pdfobject) list"
  | PArray "pdfobject list"
  | PStream "(string \<times> pdfobject) list" pdfobjptr int
  | PObjPtr pdfobjptr
  | PObjDef pdfobjptr pdfobject

definition dictGet :: "(string \<times> pdfobject) list \<Rightarrow> string \<Rightarrow> pdfobject" where
  "dictGet d k = (case map_of d k of None \<Rightarrow> PNull | Some v \<Rightarrow> v)"

record xref =
  ptr :: pdfobjptr
  inStream :: bool
  stream :: pdfobjptr
  offset :: int

definition zeroxref :: xref where
  "zeroxref = \<lparr>ptr = zeroptr, inStream = False, stream = zeroptr, offset = 0\<rparr>"

text \<open>
  A \<open>Value\<close> is the struct \<open>{r *Reader; ptr pdfobjptr; data interface{}}\<close>. All values
  of one document share the reader, which the functions below take as an argument of their
  own; the two remaining fields are \<open>vptr\<close> and \<open>vdata\<close> (the source calls them \<open>ptr\<close>
  and \<open>data\<close>; \<open>xref\<close> has a \<open>ptr\<close> already). \<open>Value{}\<close> is \<open>NullValue\<close>.
\<close>

record Value =
  vptr :: pdfobjptr
  vdata :: pdfobject

definition NullValue :: Value where
  "NullValue = \<lparr>vptr = zeroptr, vdata = PNull\<rparr>"

definition IsNull :: "Value \<Rightarrow> bool" where
  "IsNull v = (vdata v = PNull)"

datatype ValueKind = Null | Bool | Integer | Real | String | Name | Dict | Array | Stream

fun kindOf :: "pdfobject \<Rightarrow> ValueKind" where
  "kindOf (PBool _) = Bool"
| "kindOf (PInt _) = Integer"
| "kindOf (PReal _) = Real"
| "kindOf (PString _) = String"
| "kindOf (PName _) = Name"
| "kindOf (PDict _) = Dict"
| "kindOf (PArray _) = Array"
| "kindOf (PStream _ _ _) = Stream"
| "kindOf _ = Null"

definition Kind :: "Value \<Rightarrow> ValueKind" where
  "Kind v = kindOf (vdata v)"

text \<open>
  The reader. \<open>xref\<close> is the table built when the file is opened. The file itself and the
  parser enter through \<open>objectAt\<close>: \<open>objectAt r off\<close> is what
  \<open>newPdfBuffer(io.NewSectionReader(r.f, off, r.end-off), off).readObject()\<close> yields with
  the reader's key, \<open>Inl\<close> with the message when the parser panics. \<open>objStmSearch\<close>
  stands for the tail of the \<open>Search\<close> loop of \<open>resolve\<close> (reading \<open>N\<close> and \<open>First\<close>,
  scanning the offsets of the decoded object stream, following \<open>Extends\<close>): the object
  found, a panic, or \<open>None\<close> when the loop does not end.
\<close>

record Reader =
  xref :: "xref list"
  objectAt :: "int \<Rightarrow> string + pdfobject"
  objStmSearch :: "Value \<Rightarrow> pdfobjptr \<Rightarrow> (string + pdfobject) option"
  Trailer :: Value
  key :: "8 word list option"
  useAES :: bool

section \<open>Resolving references\<close>

text \<open>
  Both type switches of \<open>resolve\<close> accept \<open>nil\<close>, \<open>bool\<close>, \<open>int64\<close>, \<open>float64\<close>,
  \<open>pdfname\<close>, \<open>pdfdict\<close>, \<open>pdfarray\<close>, \<open>pdfstream\<close> and \<open>string\<close>, and answer
  \<open>ErrUnexpectedValueType\<close> to anything else.
\<close>

fun wrapValue :: "pdfobjptr \<Rightarrow> pdfobject \<Rightarrow> error + Value" where
  "wrapValue parent (PObjPtr _) = Inl ErrUnexpectedValueType"
| "wrapValue parent (PObjDef _ _) = Inl ErrUnexpectedValueType"
| "wrapValue parent (PKeyword _) = Inl ErrUnexpectedValueType"
| "wrapValue parent x = Inr \<lparr>vptr = parent, vdata = x\<rparr>"

text \<open>
  \<open>v.Name(p)\<close> with a path of one element: \<open>Walk\<close> hands the path to
  \<open>DoWalkChildren\<close>, whose loop runs over all elements but the last, that is over none,
  and \<open>Name\<close> then looks at \<open>v\<close> itself. (\<open>Name\<close> for any path is defined further down,
  and \<open>Name_single\<close> relates the two.)
\<close>

definition nameOfSelf :: "Value \<Rightarrow> string \<times> error option" where
  "nameOfSelf v =
     (case vdata v of PName x \<Rightarrow> (x, None)
      | _ \<Rightarrow> ([], Some (Errorf ''Object is not a valid name'')))"

partial_function (option) resolve :: "Reader \<Rightarrow> pdfobjptr \<Rightarrow> pdfobject \<Rightarrow> (error + Value) option" where
  "resolve r parent x =
     (case x of
        PObjPtr p \<Rightarrow>
          if word_of_nat (length (xref r)) \<le> id' p then Some (Inl ErrObjectOutOfBounds)
          else let xr = xref r ! unat (id' p) in
            if ptr xr \<noteq> p \<or> (\<not> inStream xr \<and> offset xr = 0) then Some (Inr NullValue)
            else if inStream xr then
              Option.bind (resolve r parent (PObjPtr (stream xr))) (\<lambda>res.
                case res of
                  Inl err \<Rightarrow> Some (Inl err)
                | Inr strm \<Rightarrow>
                    if Kind strm \<noteq> Stream then Some (Inl ErrNotAStream)
                    else if fst (nameOfSelf strm) \<noteq> ''ObjStm''
                      then Some (Inl (Panic ''not an object stream''))
                    else (case objStmSearch r strm p of
                            None \<Rightarrow> None
                          | Some (Inl msg) \<Rightarrow> Some (Inl (Panic msg))
                          | Some (Inr y) \<Rightarrow> Some (wrapValue p y)))
            else (case objectAt r (offset xr) of
                    Inl msg \<Rightarrow> Some (Inl (Panic msg))
                  | Inr (PObjDef dp dobj) \<Rightarrow>
                      if dp \<noteq> p then Some (Inl (Panic ''loading: found another object''))
                      else Some (wrapValue p dobj)
                  | Inr _ \<Rightarrow> Some (Inl (Panic ''loading: found no objdef'')))
      | _ \<Rightarrow> Some (wrapValue parent x))"

declare resolve.simps [code]

text \<open>
  A free slot as \<open>readXrefStreamData\<close> writes it, \<open>xref{ptr: pdfobjptr{0, 65535}}\<close>. A
  slot that no cross-reference section filled is \<open>zeroxref\<close>.
\<close>

definition freeSlot :: xref where
  "freeSlot = \<lparr>ptr = \<lparr>id' = 0, gen = 65535\<rparr>, inStream = False, stream = zeroptr, offset = 0\<rparr>"

section \<open>The Value accessors\<close>

text \<open>
  \<open>Key\<close>, \<open>Index\<close> and \<open>Len\<close> of \<open>Value\<close>. Each \<open>return Value{}, err\<close> of the source
  is \<open>Inl err\<close>: the value beside an error is always the null \<open>Value{}\<close>. The result is
  \<open>None\<close> where \<open>resolve\<close> does not return.
\<close>

definition Key :: "Reader \<Rightarrow> Value \<Rightarrow> string \<Rightarrow> (error + Value) option" where
  "Key r v k =
     (case vdata v of
        PDict x \<Rightarrow> resolve r (vptr v) (dictGet x k)
      | PStream hdr _ _ \<Rightarrow> resolve r (vptr v) (dictGet hdr k)
      | _ \<Rightarrow> Some (Inl ErrNotAValidStream))"

definition Index :: "Reader \<Rightarrow> Value \<Rightarrow> int \<Rightarrow> (error + Value) option" where
  "Index r v i =
     (case vdata v of
        PArray x \<Rightarrow>
          if i < 0 \<or> i \<ge> int (length x) then Some (Inl ErrNotAValidStream)
          else resolve r (vptr v) (x ! nat i)
      | _ \<Rightarrow> Some (Inl ErrNotAValidStream))"

definition Len :: "Value \<Rightarrow> int" where
  "Len v = (case vdata v of PArray x \<Rightarrow> int (length x) | _ \<Rightarrow> 0)"

text \<open>
  \<open>Walk\<close> and \<open>DoWalkChildren\<close>. A path element is a \<open>string\<close>, an \<open>int\<close>, a
  \<open>WalkType\<close> or something else. \<open>DoWalkChildren\<close> ranges over
  \<open>path[:len(path)-1]\<close>, which panics on the empty path.
\<close>

datatype WalkType = WalkChildren | WalkInherited

datatype pathelem = PathKey string | PathIndex int | PathWalk WalkType | PathOther

fun walkChildren :: "Reader \<Rightarrow> Value \<Rightarrow> pathelem list \<Rightarrow> (error + Value) option" where
  "walkChildren r current [] = Some (Inr current)"
| "walkChildren r current (PathKey p # ps) =
     (case Key r current p of
        None \<Rightarrow> None
      | Some (Inl err) \<Rightarrow> Some (Inl err)
      | Some (Inr c) \<Rightarrow> walkChildren r c ps)"
| "walkChildren r current (PathIndex p # ps) =
     (case Index r current p of
        None \<Rightarrow> None
      | Some (Inl err) \<Rightarrow> Some (Inl err)
      | Some (Inr c) \<Rightarrow> walkChildren r c ps)"
| "walkChildren r current (_ # ps) = Some (Inl (Errorf ''unsupported path element type''))"

definition DoWalkChildren :: "Reader \<Rightarrow> Value \<Rightarrow> pathelem list \<Rightarrow> (error + Value) option" where
  "DoWalkChildren r v path =
     (if path = [] then Some (Inl (Panic ''slice bounds out of range''))
      else walkChildren r v (butlast path))"

definition Walk :: "Reader \<Rightarrow> Value \<Rightarrow> pathelem list \<Rightarrow> (error + Value) option" where
  "Walk r v path =
     (case path of
        [] \<Rightarrow> Some (Inr v)
      | PathWalk WalkChildren # rest \<Rightarrow> DoWalkChildren r v rest
      | PathWalk WalkInherited # rest \<Rightarrow> Some (Inl (Panic ''WalkInherited not implemented yet!''))
      | _ \<Rightarrow> DoWalkChildren r v path)"

text \<open>
  \<open>Name\<close> and \<open>Int64\<close> return a pair in Go, the zero value beside an error; the pair is
  kept here because \<open>resolve\<close> reads the name and drops the error.
\<close>

definition Name_path :: "Reader \<Rightarrow> Value \<Rightarrow> pathelem list \<Rightarrow> (string \<times> error option) option" where
  "Name_path r v path =
     (case (if path = [] then Some (Inr v) else Walk r v path) of
        None \<Rightarrow> None
      | Some (Inl err) \<Rightarrow> Some ([], Some err)
      | Some (Inr v2) \<Rightarrow> Some (nameOfSelf v2))"

definition Int64_path :: "Reader \<Rightarrow> Value \<Rightarrow> pathelem list \<Rightarrow> (int \<times> error option) option" where
  "Int64_path r v path =
     (case (if path = [] then Some (Inr v) else Walk r v path) of
        None \<Rightarrow> None
      | Some (Inl err) \<Rightarrow> Some (0, Some err)
      | Some (Inr v2) \<Rightarrow>
          (case vdata v2 of
             PInt val \<Rightarrow> Some (val, None)
           | _ \<Rightarrow> Some (0, Some (Errorf ''Could not cast into int64''))))"

section \<open>Pages\<close>

text \<open>
  A \<open>Page\<close> is its dictionary \<open>V\<close> (the font cache plays no part here).
  In \<open>findInherited\<close> the body of the \<open>for\<close> loop returns on both of its paths, so the
  loop's post statement \<open>v, _ = v.Key("Parent")\<close> is never run: the function is the first
  iteration, or the final \<open>return Value{}, nil\<close> when the page is null.
\<close>

record Page =
  V :: Value

definition findInherited :: "Reader \<Rightarrow> Page \<Rightarrow> string \<Rightarrow> (error + Value) option" where
  "findInherited r p k =
     (if Kind (V p) \<noteq> Null then
        (case Key r (V p) k of
           None \<Rightarrow> None
         | Some (Inl err) \<Rightarrow> Some (Inl err)
         | Some (Inr res) \<Rightarrow> Some (Inr res))
      else Some (Inr NullValue))"

definition MediaBox :: "Reader \<Rightarrow> Page \<Rightarrow> (error + Value) option" where
  "MediaBox r p = findInherited r p ''MediaBox''"

definition CropBox :: "Reader \<Rightarrow> Page \<Rightarrow> (error + Value) option" where
  "CropBox r p = findInherited r p ''CropBox''"

definition Resources :: "Reader \<Rightarrow> Page \<Rightarrow> (error + Value) option" where
  "Resources r p = findInherited r p ''Resources''"

text \<open>
  A two-object document for the examples: object 1 is the \<open>Pages\<close> node, with the
  \<open>MediaBox\<close>; object 2 is its only page, which has a \<open>Parent\<close> and no \<open>MediaBox\<close> of its
  own. Object 1 is at offset 15 and object 2 at offset 120; slot 0 of the table is free
  and slot 3 was never filled.
\<close>

definition pagesNode :: pdfobject where
  "pagesNode = PDict [(''Type'', PName ''Pages''), (''Count'', PInt 1),
     (''Kids'', PArray [PObjPtr \<lparr>id' = 2, gen = 0\<rparr>]),
     (''MediaBox'', PArray [PInt 0, PInt 0, PInt 612, PInt 792])]"

definition pageLeaf :: pdfobject where
  "pageLeaf = PDict [(''Type'', PName ''Page''), (''Parent'', PObjPtr \<lparr>id' = 1, gen = 0\<rparr>)]"

definition twoObjects :: "int \<Rightarrow> string + pdfobject" where
  "twoObjects off =
     (if off = 15 then Inr (PObjDef \<lparr>id' = 1, gen = 0\<rparr> pagesNode)
      else if off = 120 then Inr (PObjDef \<lparr>id' = 2, gen = 0\<rparr> pageLeaf)
      else Inl ''malformed PDF'')"

definition twoPages :: Reader where
  "twoPages = \<lparr>
     xref = [freeSlot,
       \<lparr>ptr = \<lparr>id' = 1, gen = 0\<rparr>, inStream = False, stream = zeroptr, offset = 15\<rparr>,
       \<lparr>ptr = \<lparr>id' = 2, gen = 0\<rparr>, inStream = False, stream = zeroptr, offset = 120\<rparr>,
       zeroxref],
     objectAt = twoObjects,
     objStmSearch = (\<lambda>_ _. Some (Inl ''cannot find object in stream'')),
     Trailer = \<lparr>vptr = zeroptr, vdata = PDict [(''Size'', PInt 4)]\<rparr>,
     key = None,
     useAES = False\<rparr>"

definition thePage :: Page where
  "thePage = \<lparr>V = \<lparr>vptr = \<lparr>id' = 2, gen = 0\<rparr>, vdata = pageLeaf\<rparr>\<rparr>"

section \<open>The PNG-Up predictor\<close>

text \<open>
  \<open>pngUpReader\<close> is the struct \<open>{r io.Reader; hist, tmp, pend []byte}\<close>; its fields carry
  the prefix \<open>png_\<close> here. The reader \<open>r\<close> underneath (the inflated stream) is the list
  of bytes it has yet to deliver. In the source \<open>pend\<close> is a slice of \<open>hist\<close>; \<open>hist\<close> is
  written only when \<open>pend\<close> is empty and \<open>pend\<close> is set anew right after, so a copy
  behaves alike.
\<close>

record pngUpReader =
  png_r :: "8 word list"
  png_hist :: "8 word list"
  png_tmp :: "8 word list"
  png_pend :: "8 word list"

text \<open>
  \<open>applyFilter\<close> builds the reader with \<open>hist\<close> and \<open>tmp\<close> of \<open>1 + columns\<close> zero bytes.
\<close>

definition newPngUpReader :: "8 word list \<Rightarrow> int \<Rightarrow> pngUpReader" where
  "newPngUpReader zr columns =
     \<lparr>png_r = zr, png_hist = replicate (nat (1 + columns)) 0,
      png_tmp = replicate (nat (1 + columns)) 0, png_pend = []\<rparr>"

text \<open>
  \<open>Read(b)\<close> for a buffer of \<open>nb\<close> bytes returns the bytes written to the front of \<open>b\<close>
  (their number is the \<open>n\<close> of the source), the error if any, and the reader afterwards.
  \<open>io.ReadFull\<close> fills \<open>tmp\<close> or fails: with \<open>io.EOF\<close> when nothing is left, with
  \<open>io.ErrUnexpectedEOF\<close> when too little is left (\<open>tmp\<close> then holds the bytes that were
  read). On a \<open>tmp\<close> of length zero it succeeds and \<open>r.tmp[0]\<close> panics.
\<close>

function Read :: "pngUpReader \<Rightarrow> nat \<Rightarrow> 8 word list \<times> error option \<times> pngUpReader" where
  "Read st nb =
     (if nb = 0 then ([], None, st)
      else if png_pend st \<noteq> [] then
        (case Read (st\<lparr>png_pend := drop (min nb (length (png_pend st))) (png_pend st)\<rparr>)
                (nb - min nb (length (png_pend st))) of
           (out, res) \<Rightarrow> (take (min nb (length (png_pend st))) (png_pend st) @ out, res))
      else if png_tmp st = [] then ([], Some (Panic ''index out of range''), st)
      else if png_r st = [] then ([], Some EOF, st)
      else if length (png_r st) < length (png_tmp st) then
        ([], Some ErrUnexpectedEOF,
         st\<lparr>png_r := [], png_tmp := png_r st @ drop (length (png_r st)) (png_tmp st)\<rparr>)
      else if hd (png_r st) \<noteq> 2 then
        ([], Some (Errorf ''malformed PNG-Up encoding''),
         st\<lparr>png_r := drop (length (png_tmp st)) (png_r st),
            png_tmp := take (length (png_tmp st)) (png_r st)\<rparr>)
      else if length (png_hist st) < length (png_tmp st) then
        ([], Some (Panic ''index out of range''),
         st\<lparr>png_r := drop (length (png_tmp st)) (png_r st),
            png_tmp := take (length (png_tmp st)) (png_r st),
            png_hist := map2 (+) (png_hist st) (take (length (png_tmp st)) (png_r st))\<rparr>)
      else
        Read (st\<lparr>png_r := drop (length (png_tmp st)) (png_r st),
                 png_tmp := take (length (png_tmp st)) (png_r st),
                 png_hist := map2 (+) (take (length (png_tmp st)) (png_hist st))
                                (take (length (png_tmp st)) (png_r st))
                             @ drop (length (png_tmp st)) (png_hist st),
                 png_pend := tl (map2 (+) (take (length (png_tmp st)) (png_hist st))
                                (take (length (png_tmp st)) (png_r st))
                             @ drop (length (png_tmp st)) (png_hist st))\<rparr>) nb)"
  by pat_completeness auto
termination
  by (relation "measure (\<lambda>(st, nb). length (png_r st) + nb)") (auto simp: Suc_leI)

text \<open>
  What the claim promises: output row \<open>i\<close> is, byte by byte, the sum of the payload rows
  \<open>p\<^sub>0 \<dots> p\<^sub>i\<close>; addition of bytes wraps at 256.
\<close>

definition sumRow :: "nat \<Rightarrow> 8 word list list \<Rightarrow> nat \<Rightarrow> 8 word list" where
  "sumRow columns rows i = map (\<lambda>k. \<Sum>j\<le>i. rows ! j ! k) [0..<columns]"

definition sumRows :: "nat \<Rightarrow> 8 word list list \<Rightarrow> 8 word list" where
  "sumRows columns rows = concat (map (sumRow columns rows) [0..<length rows])"

definition encodeUp :: "8 word list list \<Rightarrow> 8 word list" where
  "encodeUp rows = concat (map (\<lambda>p. 2 # p) rows)"

declare Read.simps [simp del]

text \<open>
  A caller reads the stream with one call of \<open>Read\<close> after another, on the same reader
  (\<open>readXrefStreamData\<close> takes one record per call, through \<open>io.ReadFull\<close>).
  \<open>Reads st ns\<close> is the reader after the calls with buffers of \<open>ns\<close> bytes, in this
  order.
\<close>

fun Reads :: "pngUpReader \<Rightarrow> nat list \<Rightarrow> pngUpReader" where
  "Reads st [] = st"
| "Reads st (n # ns) = Reads (snd (snd (Read st n))) ns"

text \<open>The history after each row, for rows that all carry the filter byte 2.\<close>

fun hists :: "8 word list \<Rightarrow> 8 word list list \<Rightarrow> 8 word list list" where
  "hists h [] = []"
| "hists h (p # ps) = map2 (+) h (2 # p) # hists (map2 (+) h (2 # p)) ps"

text \<open>
  For the proofs: a reader that stands before the encoded rows \<open>rows\<close> followed by
  \<open>rest\<close>, and the bytes it has yet to hand out from these rows, those pending first.
\<close>

definition ready :: "nat \<Rightarrow> pngUpReader \<Rightarrow> 8 word list list \<Rightarrow> 8 word list \<Rightarrow> bool" where
  "ready cols st rows rest =
     (length (png_tmp st) = Suc cols \<and> length (png_hist st) = Suc cols
      \<and> (\<forall>p\<in>set rows. length p = cols) \<and> png_r st = encodeUp rows @ rest)"

definition pending :: "pngUpReader \<Rightarrow> 8 word list list \<Rightarrow> 8 word list" where
  "pending st rows = png_pend st @ concat (map tl (hists (png_hist st) rows))"

section \<open>Opening an encrypted file\<close>

text \<open>
  \<open>NewReaderEncrypted\<close>, from the point where the cross-reference table has been read.
  Its three inputs here are: \<open>opened\<close>, the outcome of everything before (the header and
  \<open>%%EOF\<close> checks, \<open>startxref\<close>, \<open>readXref\<close>): an error, or the reader with its table
  and trailer; \<open>initEncrypt\<close>, the method of that name, which on success returns the
  reader with \<open>key\<close> and \<open>useAES\<close> set and on failure leaves it as it was; and the callback
  \<open>pw\<close>, \<open>None\<close> for Go's \<open>nil\<close>. The callback takes no argument and sees nothing of the
  attempts, so it is the sequence of its answers: \<open>pw k\<close> is what the call number \<open>k\<close>
  returns. Beside the result stands the number of times the callback was called. The
  result is \<open>None\<close> when the loop runs for ever (every answer is non-empty and fails).
  A panic inside \<open>initEncrypt\<close> (it calls \<open>resolve\<close>, and slices the digest by the
  \<open>Length\<close> entry of the file) is \<open>Inl (Panic \<dots>)\<close> and ends the call; any other error
  of an attempt in the loop is dropped and the loop goes on.
  \<open>readXref\<close> returns the trailer as a \<open>pdfdict\<close>, so the data of \<open>Trailer\<close> is a
  dictionary; the last case of the definition is there for totality only.
\<close>

fun isPanic :: "error \<Rightarrow> bool" where
  "isPanic (Panic _) = True"
| "isPanic _ = False"

partial_function (option) tryPasswords ::
  "(string \<Rightarrow> error + Reader) \<Rightarrow> (nat \<Rightarrow> string) \<Rightarrow> error \<Rightarrow> nat
     \<Rightarrow> ((error + Reader) \<times> nat) option" where
  "tryPasswords init pw err k =
     (if pw k = [] then Some (Inl err, Suc k)
      else (case init (pw k) of
              Inr r \<Rightarrow> Some (Inr r, Suc k)
            | Inl e \<Rightarrow>
                if isPanic e then Some (Inl e, Suc k)
                else tryPasswords init pw err (Suc k)))"

declare tryPasswords.simps [code]

text \<open>An attempt fails when \<open>initEncrypt\<close> returns an error (and does not panic).\<close>

definition failed :: "error + Reader \<Rightarrow> bool" where
  "failed res = (case res of Inl e \<Rightarrow> \<not> isPanic e | Inr _ \<Rightarrow> False)"

definition NewReaderEncrypted ::
  "error + Reader \<Rightarrow> (Reader \<Rightarrow> string \<Rightarrow> error + Reader) \<Rightarrow> (nat \<Rightarrow> string) option
     \<Rightarrow> ((error + Reader) \<times> nat) option" where
  "NewReaderEncrypted opened initEncrypt pw =
     (case opened of
        Inl err \<Rightarrow> Some (Inl err, 0)
      | Inr r \<Rightarrow>
          (case vdata (Trailer r) of
             PDict trailer \<Rightarrow>
               if dictGet trailer ''Encrypt'' = PNull then Some (Inr r, 0)
               else (case initEncrypt r [] of
                       Inr r' \<Rightarrow> Some (Inr r', 0)
                     | Inl err \<Rightarrow>
                         if pw = None \<or> err \<noteq> ErrInvalidPassword then Some (Inl err, 0)
                         else tryPasswords (initEncrypt r) (the pw) err 0)
           | _ \<Rightarrow> Some (Inl (Panic ''trailer is not a dictionary''), 0)))"

text \<open>
  For the examples: a reader whose trailer has an \<open>Encrypt\<close> entry, and a password check
  that accepts \<open>secret\<close> and nothing else.
\<close>

definition encryptedReader :: Reader where
  "encryptedReader = twoPages\<lparr>Trailer :=
     \<lparr>vptr = zeroptr, vdata = PDict [(''Size'', PInt 4), (''Encrypt'', PDict [])]\<rparr>\<rparr>"

definition acceptSecret :: "Reader \<Rightarrow> string \<Rightarrow> error + Reader" where
  "acceptSecret r password =
     (if password = ''secret'' then Inr (r\<lparr>key := Some [1, 2, 3, 4, 5]\<rparr>)
      else Inl ErrInvalidPassword)"

definition guesses :: "nat \<Rightarrow> string" where
  "guesses k = (if k = 0 then ''a'' else if k = 1 then ''b'' else if k = 2 then ''secret'' else [])"

definition twoGuesses :: "nat \<Rightarrow> string" where
  "twoGuesses k = (if k = 0 then ''a'' else if k = 1 then ''b'' else [])"

section \<open>Fonts: width grabbers\<close>

text \<open>
  \<open>font.go\<close> calls the accessors in their one-result form (\<open>f.V.Key("Widths")\<close>,
  \<open>w.Index(i).Float64()\<close>, \<open>x.Int64()\<close>, \<open>x.Name()\<close>). The value such a call works with
  is the value component of the accessor: the null \<open>Value{}\<close> where the accessor returns an
  error, the zero of the type where the kind does not match. A panic inside the accessor
  stays a panic. The font functions therefore return \<open>(error + 'a) option\<close>, with \<open>Inl\<close>
  for a panic and \<open>None\<close> when the call does not return; \<open>bindR\<close> runs one such step
  after another.
\<close>

definition bindR :: "(error + 'a) option \<Rightarrow> ('a \<Rightarrow> (error + 'b) option) \<Rightarrow> (error + 'b) option" where
  "bindR m f = Option.bind m (\<lambda>x. case x of Inl e \<Rightarrow> Some (Inl e) | Inr y \<Rightarrow> f y)"

fun valueOnly :: "(error + Value) option \<Rightarrow> (error + Value) option" where
  "valueOnly None = None"
| "valueOnly (Some (Inr v)) = Some (Inr v)"
| "valueOnly (Some (Inl (Panic msg))) = Some (Inl (Panic msg))"
| "valueOnly (Some (Inl _)) = Some (Inr NullValue)"

definition KeyV :: "Reader \<Rightarrow> Value \<Rightarrow> string \<Rightarrow> (error + Value) option" where
  "KeyV r v k = valueOnly (Key r v k)"

definition IndexV :: "Reader \<Rightarrow> Value \<Rightarrow> int \<Rightarrow> (error + Value) option" where
  "IndexV r v i = valueOnly (Index r v i)"

definition Int64V :: "Value \<Rightarrow> int" where
  "Int64V v = (case vdata v of PInt x \<Rightarrow> x | _ \<Rightarrow> 0)"

definition NameV :: "Value \<Rightarrow> string" where
  "NameV v = (case vdata v of PName x \<Rightarrow> x | _ \<Rightarrow> [])"

definition Float64 :: "Value \<Rightarrow> real" where
  "Float64 v = (case vdata v of PReal x \<Rightarrow> x | PInt x \<Rightarrow> real_of_int x | _ \<Rightarrow> 0)"

text \<open>
  The two width grabbers, and \<open>nil\<close> for the empty interface value.
  \<open>WidthRange1\<close> is \<open>{start, end uint32; widths []float64}\<close> and \<open>WidthRange2\<close> is
  \<open>{start, end uint32; width float64}\<close>.
\<close>

datatype WidthRange1 = WidthRange1 "32 word" "32 word" "real list"

datatype WidthRange2 = WidthRange2 "32 word" "32 word" real

datatype WidthGrabber =
    DefaultWidthGrabber "32 word" "32 word" "real list"
  | CIDWidthGrabber "WidthRange1 list" "WidthRange2 list" real
  | NilWidthGrabber

fun Width1 :: "WidthRange1 list \<Rightarrow> 32 word \<Rightarrow> (error + real) option" where
  "Width1 [] code = None"
| "Width1 (WidthRange1 start end' widths # wmap1) code =
     (if start \<le> code \<and> code < end' then
        (if unat (code - start) < length widths then Some (Inr (widths ! unat (code - start)))
         else Some (Inl (Panic ''index out of range'')))
      else Width1 wmap1 code)"

fun Width2 :: "WidthRange2 list \<Rightarrow> 32 word \<Rightarrow> real option" where
  "Width2 [] code = None"
| "Width2 (WidthRange2 start end' width # wmap2) code =
     (if start \<le> code \<and> code < end' then Some width else Width2 wmap2 code)"

text \<open>
  \<open>Width\<close> of either grabber. \<open>Width1\<close> and \<open>Width2\<close> are the two range loops of
  \<open>CIDWidthGrabber.Width\<close>, \<open>None\<close> when no range holds the code.
\<close>

fun Width :: "WidthGrabber \<Rightarrow> 32 word \<Rightarrow> error + real" where
  "Width (DefaultWidthGrabber first last' widths) code =
     (if code < first \<or> code \<ge> last' then Inr 0
      else if unat (code - first) < length widths then Inr (widths ! unat (code - first))
      else Inl (Panic ''index out of range''))"
| "Width (CIDWidthGrabber wmap1 wmap2 defaultwidth) code =
     (case Width1 wmap1 code of
        Some res \<Rightarrow> res
      | None \<Rightarrow> (case Width2 wmap2 code of Some w \<Rightarrow> Inr w | None \<Rightarrow> Inr defaultwidth))"
| "Width NilWidthGrabber code = Inl (Panic ''nil pointer dereference'')"

text \<open>
  \<open>CreateDefaultWidthGrabber\<close>: \<open>widths[i] = w.Index(i).Float64()\<close> for \<open>i\<close> below
  \<open>w.Len()\<close>.
\<close>

fun readWidths :: "Reader \<Rightarrow> Value \<Rightarrow> nat \<Rightarrow> nat \<Rightarrow> (error + real list) option" where
  "readWidths r w i 0 = Some (Inr [])"
| "readWidths r w i (Suc n) =
     bindR (IndexV r w (int i)) (\<lambda>x.
     bindR (readWidths r w (Suc i) n) (\<lambda>rest. Some (Inr (Float64 x # rest))))"

definition CreateDefaultWidthGrabber :: "Reader \<Rightarrow> Value \<Rightarrow> (error + WidthGrabber \<times> bool) option" where
  "CreateDefaultWidthGrabber r fV =
     bindR (KeyV r fV ''FirstChar'') (\<lambda>fc.
     bindR (KeyV r fV ''LastChar'') (\<lambda>lc.
     bindR (KeyV r fV ''Widths'') (\<lambda>w.
     bindR (readWidths r w 0 (nat (Len w))) (\<lambda>widths.
       Some (Inr (DefaultWidthGrabber (word_of_int (Int64V fc)) (word_of_int (Int64V lc)) widths,
                  True))))))"

lemma bindR_mono [partial_function_mono]:
  assumes mf: "mono_option B" and mg: "\<And>y. mono_option (\<lambda>f. C y f)"
  shows "mono_option (\<lambda>f. bindR (B f) (\<lambda>y. C y f))"
proof -
  have "mono_option (\<lambda>f. case y of Inl e \<Rightarrow> Some (Inl e) | Inr z \<Rightarrow> C z f)" for y
    by (cases y) (simp_all add: mg option.const_mono)
  with mf show ?thesis
    unfolding bindR_def by (intro bind_mono)
qed

text \<open>
  The loop of \<open>CreateCIDWidthGrabber\<close> over the entries of \<open>W\<close>, from index \<open>i\<close>
  with step \<open>sz\<close> (2 after an array entry, 3 after a range entry). The inner loop over
  an array of widths, \<open>for j := 0; j < unk.Len(); i += 1\<close>, advances \<open>i\<close> and never
  \<open>j\<close>: when the array is not empty it evaluates \<open>unk.Index(0)\<close> again and again and
  does not return.
\<close>

partial_function (option) cidLoop ::
  "Reader \<Rightarrow> Value \<Rightarrow> WidthRange1 list \<Rightarrow> WidthRange2 list \<Rightarrow> int
     \<Rightarrow> (error + WidthRange1 list \<times> WidthRange2 list) option" where
  "cidLoop r w wmap1 wmap2 i =
     (if i < Len w then
        bindR (IndexV r w i) (\<lambda>g.
        bindR (IndexV r w (i + 1)) (\<lambda>unk.
          if Kind unk = Array then
            (if 0 < Len unk then bindR (IndexV r unk 0) (\<lambda>_. None)
             else cidLoop r w
                    (wmap1 @ [WidthRange1 (word_of_int (Int64V g))
                       (word_of_int (Int64V g) + word_of_int (Len unk)) []])
                    wmap2 (i + 2))
          else
            bindR (IndexV r w (i + 2)) (\<lambda>width.
              cidLoop r w wmap1
                (wmap2 @ [WidthRange2 (word_of_int (Int64V g)) (word_of_int (Int64V unk))
                   (Float64 width)])
                (i + 3))))
      else Some (Inr (wmap1, wmap2)))"

declare cidLoop.simps [code]

definition CreateCIDWidthGrabber :: "Reader \<Rightarrow> Value \<Rightarrow> (error + WidthGrabber \<times> bool) option" where
  "CreateCIDWidthGrabber r fV =
     bindR (KeyV r fV ''DescendantFonts'') (\<lambda>df.
       if Kind df \<noteq> Null then Some (Inr (NilWidthGrabber, False))
       else
         bindR (IndexV r df 0) (\<lambda>df0.
         bindR (KeyV r df0 ''W'') (\<lambda>w.
           if Kind w \<noteq> Null then Some (Inr (NilWidthGrabber, False))
           else
             bindR (KeyV r fV ''DescendantFonts'') (\<lambda>df2.
             bindR (IndexV r df2 0) (\<lambda>df20.
             bindR (KeyV r df20 ''DW'') (\<lambda>dw.
             bindR (cidLoop r w [] [] 0) (\<lambda>(wmap1, wmap2).
               Some (Inr (CIDWidthGrabber wmap1 wmap2 (Float64 dw), True)))))))))"

section \<open>Fonts: text encodings\<close>

text \<open>
  The encoders of \<open>font.go\<close>. The three 256-entry tables \<open>winAnsiEncoding\<close>,
  \<open>macRomanEncoding\<close> and \<open>pdfDocEncoding\<close> and the map \<open>nameToRune\<close> are not among
  the sources; the functions below take them as the parameters \<open>tableOf\<close> (a table is
  indexed by a byte, so it is a function on bytes) and \<open>nameToRune\<close> (0 for a name the
  map lacks). \<open>readCmap\<close> runs \<open>Interpret\<close>, which is not among the sources either:
  its result is the parameter \<open>readCmap\<close>, \<open>None\<close> for \<open>nil\<close>. A rune is the integer it
  denotes.
\<close>

datatype EncodingTable = winAnsiEncoding | macRomanEncoding | pdfDocEncoding

datatype bfrange = bfrange string string Value

datatype cmap = cmap WidthGrabber "(string \<times> string) list list" "bfrange list"

datatype TextEncoding =
    byteEncoder WidthGrabber EncodingTable
  | nopEncoder WidthGrabber
  | dictEncoder WidthGrabber Value
  | cmapEncoder cmap

datatype PositionedChar = PositionedChar (Text: "int list") (pcWidth: real)

datatype Font = Font (fontV: Value) (enc: TextEncoding)

definition toUnicodeEncoder ::
  "(Value \<Rightarrow> WidthGrabber \<Rightarrow> cmap option) \<Rightarrow> Reader \<Rightarrow> Value \<Rightarrow> WidthGrabber
     \<Rightarrow> (error + TextEncoding) option" where
  "toUnicodeEncoder readCmap r fV wg =
     bindR (KeyV r fV ''ToUnicode'') (\<lambda>toUnicode.
       if Kind toUnicode = Stream then
         (case readCmap toUnicode wg of
            None \<Rightarrow> Some (Inr (nopEncoder wg))
          | Some m \<Rightarrow> Some (Inr (cmapEncoder m)))
       else Some (Inr (byteEncoder wg pdfDocEncoding)))"

definition Encoder ::
  "(Value \<Rightarrow> WidthGrabber \<Rightarrow> cmap option) \<Rightarrow> Reader \<Rightarrow> Value \<Rightarrow> WidthGrabber
     \<Rightarrow> (error + TextEncoding) option" where
  "Encoder readCmap r fV wg =
     bindR (KeyV r fV ''Encoding'') (\<lambda>e.
       case Kind e of
         Name \<Rightarrow>
           if NameV e = ''WinAnsiEncoding'' then Some (Inr (byteEncoder wg winAnsiEncoding))
           else if NameV e = ''MacRomanEncoding'' then Some (Inr (byteEncoder wg macRomanEncoding))
           else if NameV e = ''Identity-H'' \<or> NameV e = ''Identity-V''
             then toUnicodeEncoder readCmap r fV wg
           else Some (Inr (nopEncoder wg))
       | Dict \<Rightarrow> bindR (KeyV r e ''Differences'') (\<lambda>d. Some (Inr (dictEncoder wg d)))
       | Null \<Rightarrow> toUnicodeEncoder readCmap r fV wg
       | _ \<Rightarrow> Some (Inr (nopEncoder wg)))"

definition FontFromValue ::
  "(Value \<Rightarrow> WidthGrabber \<Rightarrow> cmap option) \<Rightarrow> Reader \<Rightarrow> Value \<Rightarrow> (error + Font) option" where
  "FontFromValue readCmap r v =
     bindR (CreateCIDWidthGrabber r v) (\<lambda>(wg, ok).
     bindR (if \<not> ok then CreateDefaultWidthGrabber r v else Some (Inr (wg, ok))) (\<lambda>(wg, ok).
     bindR (Encoder readCmap r v wg) (\<lambda>e. Some (Inr (Font v e)))))"

text \<open>
  \<open>byteEncoder.Decode\<close> and \<open>nopEncoder.Decode\<close>: one \<open>PositionedChar\<close> is appended per
  byte of \<open>raw\<close>, front to back; a panic of \<open>Width\<close> ends the call.
\<close>

fun byteEncoder_Decode ::
  "(char \<Rightarrow> int) \<Rightarrow> WidthGrabber \<Rightarrow> string \<Rightarrow> error + PositionedChar list" where
  "byteEncoder_Decode table wg [] = Inr []"
| "byteEncoder_Decode table wg (c # raw) =
     (case Width wg (of_char c) of
        Inl e \<Rightarrow> Inl e
      | Inr w \<Rightarrow>
          (case byteEncoder_Decode table wg raw of
             Inl e \<Rightarrow> Inl e
           | Inr text \<Rightarrow> Inr (PositionedChar [table c] w # text)))"

fun nopEncoder_Decode :: "WidthGrabber \<Rightarrow> string \<Rightarrow> error + PositionedChar list" where
  "nopEncoder_Decode wg [] = Inr []"
| "nopEncoder_Decode wg (c # raw) =
     (case Width wg (of_char c) of
        Inl e \<Rightarrow> Inl e
      | Inr w \<Rightarrow>
          (case nopEncoder_Decode wg raw of
             Inl e \<Rightarrow> Inl e
           | Inr text \<Rightarrow> Inr (PositionedChar [of_char c] w # text)))"

text \<open>
  \<open>dictEncoder.Decode\<close>. \<open>diffScan\<close> is the inner loop over the \<open>Differences\<close> array
  \<open>e.v\<close> for the byte \<open>b\<close>, from index \<open>j\<close> with the running code \<open>n\<close>; it yields the
  rune \<open>ch\<close> for the byte.
\<close>

partial_function (option) diffScan ::
  "(string \<Rightarrow> int) \<Rightarrow> Reader \<Rightarrow> Value \<Rightarrow> char \<Rightarrow> int \<Rightarrow> int \<Rightarrow> int \<Rightarrow> (error + int) option" where
  "diffScan nameToRune r v b n ch j =
     (if j < Len v then
        bindR (IndexV r v j) (\<lambda>x.
          if Kind x = Integer then diffScan nameToRune r v b (Int64V x) ch (j + 1)
          else if Kind x = Name then
            (if of_char b = n \<and> nameToRune (NameV x) \<noteq> 0 then Some (Inr (nameToRune (NameV x)))
             else diffScan nameToRune r v b (n + 1) ch (j + 1))
          else diffScan nameToRune r v b n ch (j + 1))
      else Some (Inr ch))"

declare diffScan.simps [code]

fun dictEncoder_Decode ::
  "(string \<Rightarrow> int) \<Rightarrow> Reader \<Rightarrow> WidthGrabber \<Rightarrow> Value \<Rightarrow> string
     \<Rightarrow> (error + PositionedChar list) option" where
  "dictEncoder_Decode nameToRune r wg v [] = Some (Inr [])"
| "dictEncoder_Decode nameToRune r wg v (c # raw) =
     bindR (diffScan nameToRune r v c (- 1) (of_char c) 0) (\<lambda>ch.
       case Width wg (word_of_int ch) of
         Inl e \<Rightarrow> Some (Inl e)
       | Inr w \<Rightarrow>
           bindR (dictEncoder_Decode nameToRune r wg v raw) (\<lambda>text.
             Some (Inr (PositionedChar [ch] w # text))))"

text \<open>
  \<open>Font.Decode\<close> hands the string to the encoder of the font. \<open>cmap.Decode\<close> is not
  modelled; its result is the parameter \<open>cmapDecode\<close>.
\<close>

fun Decode ::
  "(EncodingTable \<Rightarrow> char \<Rightarrow> int) \<Rightarrow> (string \<Rightarrow> int)
     \<Rightarrow> (cmap \<Rightarrow> string \<Rightarrow> (error + PositionedChar list) option)
     \<Rightarrow> Reader \<Rightarrow> Font \<Rightarrow> string \<Rightarrow> (error + PositionedChar list) option" where
  "Decode tableOf nameToRune cmapDecode r (Font v (byteEncoder wg table)) raw =
     Some (byteEncoder_Decode (tableOf table) wg raw)"
| "Decode tableOf nameToRune cmapDecode r (Font v (nopEncoder wg)) raw =
     Some (nopEncoder_Decode wg raw)"
| "Decode tableOf nameToRune cmapDecode r (Font v (dictEncoder wg d)) raw =
     dictEncoder_Decode nameToRune r wg d raw"
| "Decode tableOf nameToRune cmapDecode r (Font v (cmapEncoder m)) raw = cmapDecode m raw"

text \<open>
  Fonts for the examples. \<open>cidFont\<close> is a composite font whose descendant has the width
  array \<open>[1 [500 600]]\<close> and the default width 1000. \<open>shortWidthsFont\<close> has a
  \<open>DescendantFonts\<close> entry (so that \<open>FontFromValue\<close> takes the simple width grabber), the
  codes 65 to 70, a \<open>Widths\<close> array of one entry and an encoding name the code does not
  know. \<open>noCmap\<close> is \<open>readCmap\<close> for a document without \<open>ToUnicode\<close> streams.
\<close>

definition cidFont :: Value where
  "cidFont = \<lparr>vptr = zeroptr, vdata = PDict
     [(''Type'', PName ''Font''), (''Subtype'', PName ''Type0''),
      (''Encoding'', PName ''Identity-H''),
      (''DescendantFonts'', PArray [PDict
         [(''DW'', PInt 1000), (''W'', PArray [PInt 1, PArray [PInt 500, PInt 600]])]])]\<rparr>"

definition shortWidthsFont :: Value where
  "shortWidthsFont = \<lparr>vptr = zeroptr, vdata = PDict
     [(''Type'', PName ''Font''), (''Encoding'', PName ''StandardEncoding''),
      (''DescendantFonts'', PArray []),
      (''FirstChar'', PInt 65), (''LastChar'', PInt 70), (''Widths'', PArray [PInt 500])]\<rparr>"

definition noCmap :: "Value \<Rightarrow> WidthGrabber \<Rightarrow> cmap option" where
  "noCmap v wg = None"

definition greekNames :: "string \<Rightarrow> int" where
  "greekNames n = (if n = ''Alpha'' then 913 else if n = ''Beta'' then 914 else 0)"

definition greekDifferences :: Value where
  "greekDifferences = \<lparr>vptr = zeroptr, vdata = PArray [PInt 65, PName ''Alpha'', PName ''Beta'']\<rparr>"

section \<open>Per-object keys\<close>

text \<open>
  \<open>cryptKey\<close> hashes with \<open>crypto/md5\<close> of Go's standard library. \<open>md5\<close> below is that
  function (RFC 1321) on a list of bytes: the message is padded with \<open>0x80\<close>, zero bytes
  and its length in bits as eight little-endian bytes; each block of 64 bytes runs
  through 64 steps on four 32-bit words; the digest is the four words as sixteen
  little-endian bytes.
\<close>

definition md5_K :: "32 word list" where
  "md5_K =
     [0xd76aa478, 0xe8c7b756, 0x242070db, 0xc1bdceee,
      0xf57c0faf, 0x4787c62a, 0xa8304613, 0xfd469501,
      0x698098d8, 0x8b44f7af, 0xffff5bb1, 0x895cd7be,
      0x6b901122, 0xfd987193, 0xa679438e, 0x49b40821,
      0xf61e2562, 0xc040b340, 0x265e5a51, 0xe9b6c7aa,
      0xd62f105d, 0x02441453, 0xd8a1e681, 0xe7d3fbc8,
      0x21e1cde6, 0xc33707d6, 0xf4d50d87, 0x455a14ed,
      0xa9e3e905, 0xfcefa3f8, 0x676f02d9, 0x8d2a4c8a,
      0xfffa3942, 0x8771f681, 0x6d9d6122, 0xfde5380c,
      0xa4beea44, 0x4bdecfa9, 0xf6bb4b60, 0xbebfbc70,
      0x289b7ec6, 0xeaa127fa, 0xd4ef3085, 0x04881d05,
      0xd9d4d039, 0xe6db99e5, 0x1fa27cf8, 0xc4ac5665,
      0xf4292244, 0x432aff97, 0xab9423a7, 0xfc93a039,
      0x655b59c3, 0x8f0ccc92, 0xffeff47d, 0x85845dd1,
      0x6fa87e4f, 0xfe2ce6e0, 0xa3014314, 0x4e0811a1,
      0xf7537e82, 0xbd3af235, 0x2ad7d2bb, 0xeb86d391]"

definition md5_s :: "nat list" where
  "md5_s =
     [7, 12, 17, 22, 7, 12, 17, 22, 7, 12, 17, 22, 7, 12, 17, 22,
      5, 9, 14, 20, 5, 9, 14, 20, 5, 9, 14, 20, 5, 9, 14, 20,
      4, 11, 16, 23, 4, 11, 16, 23, 4, 11, 16, 23, 4, 11, 16, 23,
      6, 10, 15, 21, 6, 10, 15, 21, 6, 10, 15, 21, 6, 10, 15, 21]"

definition word32_of_bytes :: "8 word list \<Rightarrow> 32 word" where
  "word32_of_bytes bs =
     ucast (bs ! 0) OR push_bit 8 (ucast (bs ! 1)) OR push_bit 16 (ucast (bs ! 2))
       OR push_bit 24 (ucast (bs ! 3))"

definition bytes_of_word32 :: "32 word \<Rightarrow> 8 word list" where
  "bytes_of_word32 w = [ucast w, ucast (drop_bit 8 w), ucast (drop_bit 16 w), ucast (drop_bit 24 w)]"

definition md5_pad :: "8 word list \<Rightarrow> 8 word list" where
  "md5_pad msg =
     msg @ [0x80] @ replicate ((119 - length msg mod 64) mod 64) 0
       @ map (\<lambda>k. ucast (drop_bit (8 * k) (word_of_nat (8 * length msg) :: 64 word))) [0..<8]"

definition md5_step ::
  "32 word list \<Rightarrow> nat \<Rightarrow> 32 word \<times> 32 word \<times> 32 word \<times> 32 word
     \<Rightarrow> 32 word \<times> 32 word \<times> 32 word \<times> 32 word" where
  "md5_step m i st =
     (case st of (a, b, c, d) \<Rightarrow>
        let f = (if i < 16 then (b AND c) OR (NOT b AND d)
                 else if i < 32 then (d AND b) OR (NOT d AND c)
                 else if i < 48 then b XOR c XOR d
                 else c XOR (b OR NOT d));
            g = (if i < 16 then i
                 else if i < 32 then (5 * i + 1) mod 16
                 else if i < 48 then (3 * i + 5) mod 16
                 else (7 * i) mod 16)
        in (d, b + word_rotl (md5_s ! i) (f + a + md5_K ! i + m ! g), b, c))"

definition md5_block ::
  "32 word \<times> 32 word \<times> 32 word \<times> 32 word \<Rightarrow> 8 word list
     \<Rightarrow> 32 word \<times> 32 word \<times> 32 word \<times> 32 word" where
  "md5_block st block =
     (let m = map (\<lambda>k. word32_of_bytes (take 4 (drop (4 * k) block))) [0..<16] in
      case st of (a0, b0, c0, d0) \<Rightarrow>
        (case fold (md5_step m) [0..<64] st of (a, b, c, d) \<Rightarrow>
           (a0 + a, b0 + b, c0 + c, d0 + d)))"

definition md5 :: "8 word list \<Rightarrow> 8 word list" where
  "md5 msg =
     (let padded = md5_pad msg;
          blocks = map (\<lambda>k. take 64 (drop (64 * k) padded)) [0..<length padded div 64]
      in case fold (\<lambda>block st. md5_block st block) blocks
                (0x67452301, 0xefcdab89, 0x98badcfe, 0x10325476) of
           (a, b, c, d) \<Rightarrow>
             bytes_of_word32 a @ bytes_of_word32 b @ bytes_of_word32 c @ bytes_of_word32 d)"

text \<open>
  \<open>cryptKey(key, useAES, ptr)\<close>: the file key, the bytes \<open>byte(ptr.id)\<close>,
  \<open>byte(ptr.id >> 8)\<close>, \<open>byte(ptr.id >> 16)\<close>, \<open>byte(ptr.gen)\<close>, \<open>byte(ptr.gen >> 8)\<close>,
  and for AES the four bytes \<open>sAlT\<close>, written to the hash one after the other; the result
  is \<open>h.Sum(nil)\<close>.
\<close>

definition cryptKey :: "8 word list \<Rightarrow> bool \<Rightarrow> pdfobjptr \<Rightarrow> 8 word list" where
  "cryptKey k aes p =
     md5 (k @ [ucast (id' p), ucast (drop_bit 8 (id' p)), ucast (drop_bit 16 (id' p)),
               ucast (gen p), ucast (drop_bit 8 (gen p))]
            @ (if aes then map of_char ''sAlT'' else []))"

text \<open>
  The words of the claim: the \<open>n\<close> low-order bytes of a number, least significant first.
\<close>

fun lowBytesLE :: "nat \<Rightarrow> nat \<Rightarrow> 8 word list" where
  "lowBytesLE 0 x = []"
| "lowBytesLE (Suc n) x = word_of_nat (x mod 256) # lowBytesLE n (x div 256)"

section \<open>Building the cross-reference table: xref tables\<close>

text \<open>
  The lexer's tokens are objects (\<open>type token interface{}\<close>): booleans, integers,
  reals, strings, names and keywords. A \<open>pdfbuffer\<close> is the list of the tokens that
  \<open>readToken\<close> has yet to return; the list ends where the lexer panics (at a lexical
  error, or at the end of the file, \<open>allowEOF\<close> being off here).

  Go's \<open>int\<close> has 64 bits: \<open>int64_wrap\<close> is the value of a sum after wrap-around.
\<close>

definition int64_wrap :: "int \<Rightarrow> int" where
  "int64_wrap z = (z + 2 ^ 63) mod 2 ^ 64 - 2 ^ 63"

text \<open>
  The slot of the table at index \<open>x\<close> is made to exist by
  \<open>for cap(table) <= x { table = append(table[:cap(table)], xref{}) }\<close> and
  \<open>if len(table) <= x { table = table[:x+1] }\<close>. The table only ever grows, so the slots
  between its length and its capacity hold \<open>xref{}\<close>; after both statements the length is
  the larger of the old length and \<open>x + 1\<close> and every new slot is \<open>xref{}\<close>, whatever
  capacities \<open>append\<close> chose. A negative \<open>x\<close> changes nothing.
\<close>

definition growTable :: "xref list \<Rightarrow> int \<Rightarrow> xref list" where
  "growTable table x =
     (if int (length table) \<le> x then table @ replicate (nat (x + 1) - length table) zeroxref
      else table)"

text \<open>The type assertions \<open>tok.(int64)\<close> and \<open>tok.(pdfkeyword)\<close>.\<close>

fun asInt64 :: "pdfobject \<Rightarrow> int option" where
  "asInt64 (PInt x) = Some x"
| "asInt64 _ = None"

fun asKeyword :: "pdfobject \<Rightarrow> string option" where
  "asKeyword (PKeyword x) = Some x"
| "asKeyword _ = None"

text \<open>
  The inner loop of \<open>readXrefTableData\<close>, \<open>for i := 0; i < int(n); i++\<close>, with \<open>k\<close>
  rounds still to go. Each round reads three tokens and then checks them. For an entry
  marked \<open>n\<close> the slot is read (\<open>table[x].offset\<close>), which panics for a negative \<open>x\<close>;
  for an entry marked \<open>f\<close> it is not.
\<close>

fun readXrefTableEntries ::
  "int \<Rightarrow> int \<Rightarrow> nat \<Rightarrow> pdfobject list \<Rightarrow> xref list \<Rightarrow> error + xref list \<times> pdfobject list" where
  "readXrefTableEntries start i 0 b table = Inr (table, b)"
| "readXrefTableEntries start i (Suc k) (t1 # t2 # t3 # b) table =
     (case (asInt64 t1, asInt64 t2, asKeyword t3) of
        (Some off, Some g, Some alloc) \<Rightarrow>
          if alloc \<noteq> ''f'' \<and> alloc \<noteq> ''n'' then Inl (Errorf ''malformed xref table'')
          else
            let x = int64_wrap (start + i); table1 = growTable table x in
            if alloc = ''n'' then
              (if x < 0 then Inl (Panic ''index out of range'')
               else if offset (table1 ! nat x) = 0 then
                 readXrefTableEntries start (i + 1) k b
                   (table1[nat x := \<lparr>ptr = \<lparr>id' = word_of_int x, gen = word_of_int g\<rparr>,
                                     inStream = False, stream = zeroptr, offset = off\<rparr>])
               else readXrefTableEntries start (i + 1) k b table1)
            else readXrefTableEntries start (i + 1) k b table1
      | _ \<Rightarrow> Inl (Errorf ''malformed xref table''))"
| "readXrefTableEntries start i (Suc k) b table = Inl (Panic ''malformed PDF: reading at offset'')"

lemma readXrefTableEntries_length:
  "readXrefTableEntries start i k b table = Inr (table', b') \<Longrightarrow> length b' \<le> length b"
proof (induction k arbitrary: i b table)
  case 0
  then show ?case by simp
next
  case (Suc k)
  from Suc.prems obtain t1 t2 t3 b0 where b: "b = t1 # t2 # t3 # b0"
    by (cases b; cases "tl b"; cases "tl (tl b)") auto
  from Suc.prems show ?case
    unfolding b
    by (auto simp: Let_def split: option.splits if_splits dest!: Suc.IH)
qed

text \<open>
  \<open>readXrefTableData\<close>: subsections \<open>start n\<close> followed by \<open>n\<close> entries, up to the
  keyword \<open>trailer\<close>. It returns the table and the buffer after \<open>trailer\<close>.
\<close>

function readXrefTableData :: "pdfobject list \<Rightarrow> xref list \<Rightarrow> error + xref list \<times> pdfobject list" where
  "readXrefTableData [] table = Inl (Panic ''malformed PDF: reading at offset'')"
| "readXrefTableData (tok # b) table =
     (if tok = PKeyword ''trailer'' then Inr (table, b)
      else
        (case b of
           [] \<Rightarrow> Inl (Panic ''malformed PDF: reading at offset'')
         | t2 # b2 \<Rightarrow>
             (case (asInt64 tok, asInt64 t2) of
                (Some start, Some n) \<Rightarrow>
                  (case readXrefTableEntries start 0 (nat n) b2 table of
                     Inl err \<Rightarrow> Inl err
                   | Inr (table', b3) \<Rightarrow> readXrefTableData b3 table')
              | _ \<Rightarrow> Inl (Errorf ''malformed xref table''))))"
  by pat_completeness auto
termination
proof (relation "measure (\<lambda>(b, table). length b)", goal_cases)
  case 1
  show ?case by simp
next
  case (2 tok b table t2 b2 x y start n res table' b3)
  then have "length b3 \<le> length b2"
    using readXrefTableEntries_length by metis
  with 2 show ?case by simp
qed

text \<open>
  \<open>readXrefTable\<close> and its loop over \<open>Prev\<close>. The file enters through two parameters:
  \<open>tokensAt off\<close> is the buffer that \<open>newPdfBuffer\<close> opens at the offset \<open>off\<close>, and
  \<open>readObject b\<close> is what \<open>b.readObject()\<close> yields on the buffer \<open>b\<close> (\<open>Inl\<close> when the
  parser panics). An error that \<open>readXrefTableData\<close> returns is wrapped by
  \<open>fmt.Errorf("malformed PDF: %v", err)\<close>; a panic stays a panic. The loop is \<open>None\<close>
  when it does not end (a \<open>Prev\<close> chain that leads back into itself).
\<close>

fun asDict :: "pdfobject \<Rightarrow> (string \<times> pdfobject) list option" where
  "asDict (PDict x) = Some x"
| "asDict _ = None"

fun malformedPDF :: "error \<Rightarrow> error" where
  "malformedPDF (Panic msg) = Panic msg"
| "malformedPDF (Errorf msg) = Errorf (''malformed PDF: '' @ msg)"
| "malformedPDF err = Errorf ''malformed PDF''"

partial_function (option) readXrefTablePrev ::
  "(int \<Rightarrow> pdfobject list) \<Rightarrow> (pdfobject list \<Rightarrow> string + pdfobject) \<Rightarrow> xref list \<Rightarrow> pdfobject
     \<Rightarrow> (error + xref list) option" where
  "readXrefTablePrev tokensAt readObject table prevoff =
     (if prevoff = PNull then Some (Inr table)
      else
        (case asInt64 prevoff of
           None \<Rightarrow> Some (Inl (Errorf ''malformed PDF: xref Prev is not integer''))
         | Some off \<Rightarrow>
             (case tokensAt off of
                [] \<Rightarrow> Some (Inl (Panic ''malformed PDF: reading at offset''))
              | tok # b \<Rightarrow>
                  if tok \<noteq> PKeyword ''xref''
                  then Some (Inl (Errorf ''malformed PDF: xref Prev does not point to xref''))
                  else
                    (case readXrefTableData b table of
                       Inl err \<Rightarrow> Some (Inl (malformedPDF err))
                     | Inr (table', b') \<Rightarrow>
                         (case readObject b' of
                            Inl msg \<Rightarrow> Some (Inl (Panic msg))
                          | Inr obj \<Rightarrow>
                              (case asDict obj of
                                 None \<Rightarrow> Some (Inl (Errorf
                                   ''malformed PDF: xref Prev table not followed by trailer dictionary''))
                               | Some trailer \<Rightarrow>
                                   readXrefTablePrev tokensAt readObject table'
                                     (dictGet trailer ''Prev'')))))))"

declare readXrefTablePrev.simps [code]

definition readXrefTable ::
  "(int \<Rightarrow> pdfobject list) \<Rightarrow> (pdfobject list \<Rightarrow> string + pdfobject) \<Rightarrow> pdfobject list
     \<Rightarrow> (error + xref list \<times> pdfobjptr \<times> (string \<times> pdfobject) list) option" where
  "readXrefTable tokensAt readObject b =
     (case readXrefTableData b [] of
        Inl err \<Rightarrow> Some (Inl (malformedPDF err))
      | Inr (table, b') \<Rightarrow>
          (case readObject b' of
             Inl msg \<Rightarrow> Some (Inl (Panic msg))
           | Inr obj \<Rightarrow>
               (case asDict obj of
                  None \<Rightarrow> Some (Inl (Errorf
                    ''malformed PDF: xref table not followed by trailer dictionary''))
                | Some trailer \<Rightarrow>
                    (case readXrefTablePrev tokensAt readObject table (dictGet trailer ''Prev'') of
                       None \<Rightarrow> None
                     | Some (Inl err) \<Rightarrow> Some (Inl err)
                     | Some (Inr table2) \<Rightarrow>
                         (case asInt64 (dictGet trailer ''Size'') of
                            None \<Rightarrow> Some (Inl (Errorf ''malformed PDF: trailer missing /Size entry''))
                          | Some sz \<Rightarrow>
                              if sz < int (length table2) then
                                (if sz < 0 then Some (Inl (Panic ''slice bounds out of range''))
                                 else Some (Inr (take (nat sz) table2, zeroptr, trailer)))
                              else Some (Inr (table2, zeroptr, trailer)))))))"





section \<open>Building the cross-reference table: xref streams\<close>

text \<open>
  \<open>decodeInt\<close> shifts the bytes into a Go \<open>int\<close> of 64 bits, most significant first.
\<close>

definition decodeInt :: "8 word list \<Rightarrow> int" where
  "decodeInt b = sint (fold (\<lambda>c x. push_bit 8 x OR ucast c) b (0 :: 64 word))"

text \<open>
  \<open>buf[lo:hi]\<close> panics unless \<open>0 \<le> lo \<le> hi \<le> cap(buf)\<close>; \<open>buf\<close> is made with its
  length as capacity.
\<close>

definition subslice :: "8 word list \<Rightarrow> int \<Rightarrow> int \<Rightarrow> 8 word list option" where
  "subslice buf lo hi =
     (if 0 \<le> lo \<and> lo \<le> hi \<and> hi \<le> int (length buf)
      then Some (take (nat (hi - lo)) (drop (nat lo) buf)) else None)"

text \<open>
  Here the table is a slice with its capacity, \<open>(elements, capacity)\<close>:
  \<open>readXrefStreamData\<close> grows the capacity and does not reslice, so whether
  \<open>table[x]\<close> is within the length depends on the capacities \<open>append\<close> chooses. The
  parameter \<open>growcap\<close> gives the capacity after appending one element to a full slice of
  capacity \<open>c\<close>; it is at least \<open>c + 1\<close>. \<open>growSlice\<close> is the loop
  \<open>for cap(table) <= x { table = append(table[:cap(table)], xref{}) }\<close>.
\<close>

type_synonym xrefslice = "xref list \<times> nat"

function growSlice :: "(nat \<Rightarrow> nat) \<Rightarrow> int \<Rightarrow> xrefslice \<Rightarrow> xrefslice" where
  "growSlice growcap x (elems, c) =
     (if int c \<le> x then
        growSlice growcap x
          (elems @ replicate (c - length elems) zeroxref @ [zeroxref], max (Suc c) (growcap c))
      else (elems, c))"
  by pat_completeness auto
termination
  by (relation "measure (\<lambda>(growcap, x, elems, c). nat (x + 1 - int c))") auto

declare growSlice.simps [simp del]

text \<open>
  One record of the stream for the object number \<open>x\<close>: the three fields, the slot, and the
  \<open>switch\<close> on the type field. A slot whose \<open>ptr\<close> is not \<open>pdfobjptr{}\<close> is left alone
  (\<open>continue\<close>). The result is the table, or the panic.
\<close>

definition xrefStreamEntry :: "int \<Rightarrow> int \<Rightarrow> int \<Rightarrow> int \<Rightarrow> xref option" where
  "xrefStreamEntry x v1 v2 v3 =
     (if v1 = 0 then Some freeSlot
      else if v1 = 1 then
        Some \<lparr>ptr = \<lparr>id' = word_of_int x, gen = word_of_int v3\<rparr>, inStream = False,
              stream = zeroptr, offset = v2\<rparr>
      else if v1 = 2 then
        Some \<lparr>ptr = \<lparr>id' = word_of_int x, gen = 0\<rparr>, inStream = True,
              stream = \<lparr>id' = word_of_int v2, gen = 0\<rparr>, offset = v3\<rparr>
      else None)"

definition xrefStreamRecord ::
  "(nat \<Rightarrow> nat) \<Rightarrow> int list \<Rightarrow> 8 word list \<Rightarrow> int \<Rightarrow> xrefslice \<Rightarrow> error + xrefslice" where
  "xrefStreamRecord growcap w buf x table =
     (case subslice buf 0 (w ! 0) of
        None \<Rightarrow> Inl (Panic ''slice bounds out of range'')
      | Some f1 \<Rightarrow>
     (case subslice buf (w ! 0) (w ! 0 + w ! 1) of
        None \<Rightarrow> Inl (Panic ''slice bounds out of range'')
      | Some f2 \<Rightarrow>
     (case subslice buf (w ! 0 + w ! 1) (w ! 0 + w ! 1 + w ! 2) of
        None \<Rightarrow> Inl (Panic ''slice bounds out of range'')
      | Some f3 \<Rightarrow>
          (case growSlice growcap x table of (elems, c) \<Rightarrow>
             if x < 0 \<or> int (length elems) \<le> x then Inl (Panic ''index out of range'')
             else if ptr (elems ! nat x) \<noteq> zeroptr then Inr (elems, c)
             else
               (case xrefStreamEntry x (if w ! 0 = 0 then 1 else decodeInt f1)
                       (decodeInt f2) (decodeInt f3) of
                  None \<Rightarrow> Inr (elems, c)
                | Some e \<Rightarrow> Inr (elems[nat x := e], c))))))"

text \<open>
  The loop \<open>for i := 0; i < int(n); i++\<close> over the records of one \<open>Index\<close> pair, with
  \<open>k\<close> rounds to go; \<open>data\<close> is what the decoded stream has yet to deliver and
  \<open>io.ReadFull\<close> takes \<open>wtotal\<close> bytes of it.
\<close>

fun xrefStreamRecords ::
  "(nat \<Rightarrow> nat) \<Rightarrow> int list \<Rightarrow> nat \<Rightarrow> int \<Rightarrow> int \<Rightarrow> nat \<Rightarrow> 8 word list \<Rightarrow> xrefslice
     \<Rightarrow> error + xrefslice \<times> 8 word list" where
  "xrefStreamRecords growcap w wtotal start i 0 data table = Inr (table, data)"
| "xrefStreamRecords growcap w wtotal start i (Suc k) data table =
     (if length data < wtotal then Inl (Errorf ''error reading xref stream'')
      else
        (case xrefStreamRecord growcap w (take wtotal data) (int64_wrap (start + i)) table of
           Inl err \<Rightarrow> Inl err
         | Inr table' \<Rightarrow>
             xrefStreamRecords growcap w wtotal start (i + 1) k (drop wtotal data) table'))"

text \<open>The loop over the pairs of the \<open>Index\<close> array.\<close>

fun xrefStreamIndex ::
  "(nat \<Rightarrow> nat) \<Rightarrow> int list \<Rightarrow> nat \<Rightarrow> pdfobject list \<Rightarrow> 8 word list \<Rightarrow> xrefslice
     \<Rightarrow> error + xrefslice" where
  "xrefStreamIndex growcap w wtotal (i0 # i1 # index') data table =
     (case (asInt64 i0, asInt64 i1) of
        (Some start, Some n) \<Rightarrow>
          (case xrefStreamRecords growcap w wtotal start 0 (nat n) data table of
             Inl err \<Rightarrow> Inl err
           | Inr (table', data') \<Rightarrow> xrefStreamIndex growcap w wtotal index' data' table')
      | _ \<Rightarrow> Inl (Errorf ''malformed Index pair''))"
| "xrefStreamIndex growcap w wtotal index' data table = Inr table"

text \<open>
  \<open>readXrefStreamData\<close> for the stream with the header \<open>hdr\<close>. \<open>decoded\<close> is what
  \<open>v.Reader()\<close> delivers for the stream: the bytes after decryption and filters (cut
  short where a filter fails), or \<open>Inl\<close> when \<open>Reader\<close> panics. The parser leaves an
  empty array \<open>nil\<close>, so an empty \<open>Index\<close> is replaced like a missing one; the array is
  checked to have an even length, so the loop over its pairs uses it up.
\<close>

definition readXrefStreamData ::
  "(nat \<Rightarrow> nat) \<Rightarrow> string + 8 word list \<Rightarrow> (string \<times> pdfobject) list \<Rightarrow> xrefslice \<Rightarrow> int
     \<Rightarrow> error + xrefslice" where
  "readXrefStreamData growcap decoded hdr table sz =
     (let index = (case dictGet hdr ''Index'' of
                     PArray (a # as) \<Rightarrow> a # as
                   | _ \<Rightarrow> [PInt 0, PInt sz])
      in
      if odd (length index) then Inl (Errorf ''invalid Index array'')
      else
        (case dictGet hdr ''W'' of
           PArray ww \<Rightarrow>
             if (\<exists>x\<in>set ww. asInt64 x = None) \<or> length ww < 3 then Inl (Errorf ''invalid W array'')
             else
               let w = map (\<lambda>x. the (asInt64 x)) ww; wtotal = int64_wrap (sum_list w) in
               if wtotal < 0 then Inl (Panic ''makeslice: len out of range'')
               else
                 (case decoded of
                    Inl msg \<Rightarrow> Inl (Panic msg)
                  | Inr data \<Rightarrow> xrefStreamIndex growcap w (nat wtotal) index data table)
         | _ \<Rightarrow> Inl (Errorf ''xref stream missing W array'')))"

text \<open>
  \<open>readXrefStream\<close> and its loop over \<open>Prev\<close>. \<open>readObjectAt off\<close> is the object that
  \<open>readObject\<close> yields at the offset \<open>off\<close> and \<open>decodedOf\<close> gives, for a stream object,
  what its \<open>Reader\<close> delivers. \<open>prev.Name("Type")\<close> and \<open>prev.Int64("Size")\<close> are
  calls with a path of one element: they look at \<open>prev\<close> itself (\<open>nameOfSelf\<close> and
  \<open>int64OfSelf\<close>).
\<close>

definition int64OfSelf :: "Value \<Rightarrow> int \<times> error option" where
  "int64OfSelf v =
     (case vdata v of PInt val \<Rightarrow> (val, None)
      | _ \<Rightarrow> (0, Some (Errorf ''Could not cast into int64'')))"

partial_function (option) readXrefStreamPrev ::
  "(nat \<Rightarrow> nat) \<Rightarrow> (int \<Rightarrow> string + pdfobject) \<Rightarrow> (pdfobject \<Rightarrow> string + 8 word list)
     \<Rightarrow> int \<Rightarrow> xrefslice \<Rightarrow> pdfobject \<Rightarrow> (error + xrefslice) option" where
  "readXrefStreamPrev growcap readObjectAt decodedOf sz table prevoff =
     (if prevoff = PNull then Some (Inr table)
      else
        (case asInt64 prevoff of
           None \<Rightarrow> Some (Inl (Errorf ''malformed PDF: xref Prev is not integer''))
         | Some off \<Rightarrow>
             (case readObjectAt off of
                Inl msg \<Rightarrow> Some (Inl (Panic msg))
              | Inr (PObjDef p (PStream phdr pp poff)) \<Rightarrow>
                  let prev = \<lparr>vptr = zeroptr, vdata = PStream phdr pp poff\<rparr> in
                  if Kind prev \<noteq> Stream
                    then Some (Inl (Errorf ''malformed PDF: xref prev stream is not stream''))
                  else if fst (nameOfSelf prev) \<noteq> ''XRef''
                    then Some (Inl (Errorf ''malformed PDF: xref prev stream does not have type XRef''))
                  else
                    (case snd (int64OfSelf prev) of
                       Some err \<Rightarrow> Some (Inl err)
                     | None \<Rightarrow>
                         if sz < fst (int64OfSelf prev)
                           then Some (Inl (Errorf
                             ''malformed PDF: xref prev stream larger than last stream''))
                         else
                           (case readXrefStreamData growcap
                                   (decodedOf (PStream phdr pp poff)) phdr table
                                   (fst (int64OfSelf prev)) of
                              Inl (Panic msg) \<Rightarrow> Some (Inl (Panic msg))
                            | Inl _ \<Rightarrow> Some (Inl (Errorf ''malformed PDF: reading xref prev stream''))
                            | Inr table' \<Rightarrow>
                                readXrefStreamPrev growcap readObjectAt decodedOf sz table'
                                  (dictGet phdr ''Prev'')))
              | Inr _ \<Rightarrow> Some (Inl (Errorf ''malformed PDF: xref prev stream not found'')))))"

declare readXrefStreamPrev.simps [code]

definition readXrefStream ::
  "(nat \<Rightarrow> nat) \<Rightarrow> (int \<Rightarrow> string + pdfobject) \<Rightarrow> (pdfobject \<Rightarrow> string + 8 word list)
     \<Rightarrow> string + pdfobject
     \<Rightarrow> (error + xref list \<times> pdfobjptr \<times> (string \<times> pdfobject) list) option" where
  "readXrefStream growcap readObjectAt decodedOf obj1 =
     (case obj1 of
        Inl msg \<Rightarrow> Some (Inl (Panic msg))
      | Inr (PObjDef strmptr (PStream hdr sp soff)) \<Rightarrow>
          if dictGet hdr ''Type'' \<noteq> PName ''XRef''
            then Some (Inl (Errorf ''malformed PDF: xref stream does not have type XRef''))
          else
            (case asInt64 (dictGet hdr ''Size'') of
               None \<Rightarrow> Some (Inl (Errorf ''malformed PDF: xref stream missing Size''))
             | Some sz \<Rightarrow>
                 if sz < 0 then Some (Inl (Panic ''makeslice: len out of range''))
                 else
                   (case readXrefStreamData growcap (decodedOf (PStream hdr sp soff)) hdr
                           (replicate (nat sz) zeroxref, nat sz) sz of
                      Inl err \<Rightarrow> Some (Inl (malformedPDF err))
                    | Inr table \<Rightarrow>
                        (case readXrefStreamPrev growcap readObjectAt decodedOf sz table
                                (dictGet hdr ''Prev'') of
                           None \<Rightarrow> None
                         | Some (Inl err) \<Rightarrow> Some (Inl err)
                         | Some (Inr (elems, c)) \<Rightarrow> Some (Inr (elems, strmptr, hdr)))))
      | Inr _ \<Rightarrow> Some (Inl (Errorf ''malformed PDF: cross-reference table not found'')))"













chapter \<open>Verified properties\<close>

section \<open>Hex strings in the lexer\<close>

lemma unhex_range: "unhex c = - 1 \<or> (0 \<le> unhex c \<and> unhex c < 16)"
  by (auto simp: unhex_def Let_def)

lemma nibbles_value:
  assumes "0 \<le> l" and "l < 16"
  shows "push_bit 4 h OR l = 16 * h + (l::int)"
proof -
  have l: "take_bit 4 l = l"
    using assms by (simp add: take_bit_int_eq_self)
  have "push_bit 4 h + take_bit 4 l = push_bit 4 h OR take_bit 4 l"
    by (rule disjunctive_add) (auto simp: bit_push_bit_iff bit_take_bit_iff)
  then show ?thesis
    by (simp add: l push_bit_eq_mult)
qed

lemma isHexDigit_not_space: "isHexDigit c \<Longrightarrow> \<not> isSpace c"
  by (auto simp: isHexDigit_def isSpace_def unhex_def)

lemma isHexDigit_not_close: "isHexDigit c \<Longrightarrow> c \<noteq> CHR ''>''"
  by (auto simp: isHexDigit_def unhex_def)

lemma isSpace_not_close: "isSpace c \<Longrightarrow> c \<noteq> CHR ''>''"
  by (auto simp: isSpace_def)

lemma unhex_close: "unhex CHR ''>'' = - 1"
  by (simp add: unhex_def)

lemma hex_pair_ok:
  assumes "isHexDigit c" and "isHexDigit a"
  shows "push_bit 4 (unhex c) OR unhex a = 16 * unhex c + unhex a"
    and "\<not> push_bit 4 (unhex c) OR unhex a < 0"
proof -
  from assms unhex_range [of a] have a: "0 \<le> unhex a" "unhex a < 16"
    by (auto simp: isHexDigit_def)
  from assms have c: "0 \<le> unhex c" by (simp add: isHexDigit_def)
  show "push_bit 4 (unhex c) OR unhex a = 16 * unhex c + unhex a"
    using a by (rule nibbles_value)
  with a c show "\<not> push_bit 4 (unhex c) OR unhex a < 0" by simp
qed

text \<open>
  Both labels at once, by induction on the text before the closing \<open>>\<close>: at \<open>Loop\<close> an
  even number of digits still to come ends well, at \<open>Loop2\<close> (one digit \<open>d\<close> in hand) an
  odd number does. In the other case the closing \<open>>\<close> is read as a second nibble, which
  \<open>unhex\<close> rejects.
\<close>

lemma readHexString_digits:
  "(\<forall>c\<in>set s. isHexDigit c \<or> isSpace c) \<Longrightarrow>
     readHexString allowEOF tmp (s @ CHR ''>'' # rest) =
       (if even (length (filter (\<lambda>c. \<not> isSpace c) s))
        then Some (Inr (tmp @ hexPairs (filter (\<lambda>c. \<not> isSpace c) s), rest))
        else Some (Inl (Panic ''malformed hex string'')))"
  "(\<forall>c\<in>set s. isHexDigit c \<or> isSpace c) \<Longrightarrow> isHexDigit d \<Longrightarrow>
     readHexString2 allowEOF d tmp (s @ CHR ''>'' # rest) =
       (if odd (length (filter (\<lambda>c. \<not> isSpace c) s))
        then Some (Inr (tmp @ hexPairs (d # filter (\<lambda>c. \<not> isSpace c) s), rest))
        else Some (Inl (Panic ''malformed hex string'')))"
proof (induction s arbitrary: tmp d)
  case Nil
  {
    case 1
    show ?case by simp
  next
    case 2
    then show ?case
      by (simp add: isSpace_def unhex_close)
  }
next
  case (Cons a s)
  {
    case 1
    then have rest: "\<forall>c\<in>set s. isHexDigit c \<or> isSpace c" and a: "isHexDigit a \<or> isSpace a"
      by simp_all
    show ?case
    proof (cases "isSpace a")
      case True
      then show ?thesis
        using Cons.IH(1) [OF rest] by (simp add: isSpace_not_close)
    next
      case False
      with a have ha: "isHexDigit a" by simp
      show ?thesis
        using False Cons.IH(2) [OF rest ha] by (simp add: isHexDigit_not_close [OF ha])
    qed
  next
    case 2
    then have rest: "\<forall>c\<in>set s. isHexDigit c \<or> isSpace c" and a: "isHexDigit a \<or> isSpace a"
      and d: "isHexDigit d"
      by simp_all
    show ?case
    proof (cases "isSpace a")
      case True
      then show ?thesis
        using Cons.IH(2) [OF rest d] by simp
    next
      case False
      with a have ha: "isHexDigit a" by simp
      show ?thesis
        using False Cons.IH(1) [OF rest] hex_pair_ok [OF d ha] by (simp add: Let_def)
    qed
  }
qed

text \<open>
  C8, as the code has it. The lexer pairs the hex digits of \<open><...>\<close> into bytes and skips
  white space between them, wherever it stands. When the number of digits is odd, the
  lone last nibble is not padded with \<open>0\<close>: the closing \<open>>\<close> is taken as its partner and
  the lexer panics with \<open>malformed hex string\<close>.
\<close>

theorem readHexString_pairs_or_panics:
  "(\<forall>c\<in>set s. isHexDigit c \<or> isSpace c) \<Longrightarrow>
     readHexString allowEOF [] (s @ CHR ''>'' # rest) =
       (if even (length (filter (\<lambda>c. \<not> isSpace c) s))
        then Some (Inr (hexPairs (filter (\<lambda>c. \<not> isSpace c) s), rest))
        else Some (Inl (Panic ''malformed hex string'')))"
  using readHexString_digits(1) [of s allowEOF "[]" rest] by simp

theorem readHexString_pairs_or_panics_witness:
  "readHexString False [] ''4E 6f>x'' = Some (Inr (''No'', ''x''))
   \<and> readHexString False [] ''4 E6 f 7>x'' = Some (Inl (Panic ''malformed hex string''))"
  using readHexString_pairs_or_panics [of "''4E 6f''" False "''x''"]
    readHexString_pairs_or_panics [of "''4 E6 f 7''" False "''x''"]
  by (simp add: isSpace_def isHexDigit_def unhex_def Let_def char_of_def)

text \<open>
  The claim as the specification words it (an odd final nibble is padded with \<open>0\<close>) fails
  on \<open><ABC>\<close>: the code panics where the claim promises the two bytes \<open>AB C0\<close>.
\<close>

theorem readHexString_odd_nibble_counterexample:
  "readHexString False [] ''ABC>'' = Some (Inl (Panic ''malformed hex string''))
   \<and> readHexString False [] ''ABC>'' \<noteq> Some (Inr ([CHR 0xAB, CHR 0xC0], []))"
  by (simp add: isSpace_def unhex_def Let_def)

section \<open>Resolving references and indexing arrays\<close>

lemma Name_path_single: "Name_path r v [PathKey k] = Some (nameOfSelf v)"
  by (simp add: Name_path_def Walk_def DoWalkChildren_def)

text \<open>
  A stream is not a name, so the \<open>Type\<close> test of the \<open>Search\<close> loop never passes: every
  lookup of an object kept in an object stream ends in the panic
  \<open>not an object stream\<close>, and the tail of the loop is not reached.
\<close>

lemma nameOfSelf_stream: "Kind strm = Stream \<Longrightarrow> fst (nameOfSelf strm) = []"
  by (cases "vdata strm") (simp_all add: Kind_def nameOfSelf_def)

lemma wrapValue_not_bounds: "wrapValue p x \<noteq> Inl ErrNotAValidStream"
  by (cases x) simp_all

lemma resolve_never_ErrNotAValidStream:
  assumes "resolve r parent x = Some res"
  shows "res \<noteq> Inl ErrNotAValidStream"
proof -
  have "(case ((r, parent), x) of (a, b) \<Rightarrow> (case a of (c, d) \<Rightarrow> (\<lambda>e y. y \<noteq> Inl ErrNotAValidStream)) b) res"
  proof (rule resolve.raw_induct [where xa = "((r, parent), x)" and y = res
        and P = "\<lambda>c d e y. y \<noteq> Inl ErrNotAValidStream"], goal_cases)
    case (1 f r parent x ra)
    then show ?case
      by (auto simp: Let_def wrapValue_not_bounds split: pdfobject.splits if_splits sum.splits option.splits bind_splits)
  next
    case 2
    then show ?case using assms by simp
  qed
  then show ?thesis by simp
qed

text \<open>
  C2. A reference whose id is at or beyond the length of the table fails with
  \<open>ErrObjectOutOfBounds\<close>. A reference into the table whose slot is free (as the
  cross-reference stream reader marks it, or never filled), or whose slot holds another
  pointer, resolves to the null \<open>Value{}\<close> with no error. The ids are 32-bit and
  \<open>resolve\<close> compares against \<open>uint32(len(r.xref))\<close>, hence the table of fewer than
  \<open>2 ^ 32\<close> slots in the second part.
\<close>

theorem resolve_bounds_and_free:
  "(length (xref r) \<le> unat (id' p) \<longrightarrow>
      resolve r parent (PObjPtr p) = Some (Inl ErrObjectOutOfBounds))
   \<and> (unat (id' p) < length (xref r) \<and> length (xref r) < 2 ^ 32
        \<and> (xref r ! unat (id' p) = freeSlot \<or> xref r ! unat (id' p) = zeroxref
            \<or> ptr (xref r ! unat (id' p)) \<noteq> p) \<longrightarrow>
      resolve r parent (PObjPtr p) = Some (Inr NullValue))"
proof (intro conjI impI)
  assume "length (xref r) \<le> unat (id' p)"
  then have "unat (word_of_nat (length (xref r)) :: 32 word) \<le> unat (id' p)"
    by (simp add: unat_of_nat)
  then have "(word_of_nat (length (xref r)) :: 32 word) \<le> id' p"
    by (simp add: word_le_nat_alt)
  then show "resolve r parent (PObjPtr p) = Some (Inl ErrObjectOutOfBounds)"
    by (subst resolve.simps) simp
next
  assume a: "unat (id' p) < length (xref r) \<and> length (xref r) < 2 ^ 32
        \<and> (xref r ! unat (id' p) = freeSlot \<or> xref r ! unat (id' p) = zeroxref
            \<or> ptr (xref r ! unat (id' p)) \<noteq> p)"
  then have "unat (word_of_nat (length (xref r)) :: 32 word) = length (xref r)"
    by (simp add: unat_of_nat)
  with a have "\<not> (word_of_nat (length (xref r)) :: 32 word) \<le> id' p"
    by (simp add: word_le_nat_alt)
  moreover from a have "ptr (xref r ! unat (id' p)) \<noteq> p
      \<or> (\<not> inStream (xref r ! unat (id' p)) \<and> offset (xref r ! unat (id' p)) = 0)"
    by (auto simp: freeSlot_def zeroxref_def)
  ultimately show "resolve r parent (PObjPtr p) = Some (Inr NullValue)"
    by (subst resolve.simps) (simp add: Let_def)
qed

theorem resolve_bounds_and_free_witness:
  "resolve twoPages zeroptr (PObjPtr \<lparr>id' = 7, gen = 0\<rparr>) = Some (Inl ErrObjectOutOfBounds)
   \<and> resolve twoPages zeroptr (PObjPtr \<lparr>id' = 0, gen = 65535\<rparr>) = Some (Inr NullValue)
   \<and> resolve twoPages zeroptr (PObjPtr \<lparr>id' = 3, gen = 0\<rparr>) = Some (Inr NullValue)
   \<and> resolve twoPages zeroptr (PObjPtr \<lparr>id' = 1, gen = 5\<rparr>) = Some (Inr NullValue)"
  using resolve_bounds_and_free [of twoPages "\<lparr>id' = 7, gen = 0\<rparr>" zeroptr]
    resolve_bounds_and_free [of twoPages "\<lparr>id' = 0, gen = 65535\<rparr>" zeroptr]
    resolve_bounds_and_free [of twoPages "\<lparr>id' = 3, gen = 0\<rparr>" zeroptr]
    resolve_bounds_and_free [of twoPages "\<lparr>id' = 1, gen = 5\<rparr>" zeroptr]
  by (simp add: twoPages_def freeSlot_def zeroxref_def zeroptr_def)

text \<open>
  \<open>ErrNotAValidStream\<close> is what \<open>Index\<close> returns for an index outside the array, and
  \<open>resolve\<close> has no path that returns it.
\<close>

lemma Index_bounds_error:
  "vdata a = PArray xs \<Longrightarrow>
     (Index r a i = Some (Inl ErrNotAValidStream)) = (i < 0 \<or> int (length xs) \<le> i)"
  using resolve_never_ErrNotAValidStream [of r "vptr a" "xs ! nat i" "Inl ErrNotAValidStream"]
  by (auto simp: Index_def)

text \<open>
  C9, as the code has it. For an array \<open>a\<close> and \<open>i \<ge> 1\<close>: \<open>len(a) = i\<close> exactly when
  \<open>index(a, i-1)\<close> is not refused as out of range and \<open>index(a, i)\<close> is refused as out
  of range (the null \<open>Value{}\<close> beside \<open>ErrNotAValidStream\<close>).
\<close>

theorem Len_iff_Index_bounds:
  "vdata a = PArray xs \<Longrightarrow> 1 \<le> i \<Longrightarrow>
     (Len a = i) =
     (Index r a (i - 1) \<noteq> Some (Inl ErrNotAValidStream)
      \<and> Index r a i = Some (Inl ErrNotAValidStream))"
  by (auto simp: Index_bounds_error Len_def)

theorem Len_iff_Index_bounds_witness:
  "(Len \<lparr>vptr = zeroptr, vdata = PArray [PInt 1, PNull]\<rparr> = 2) =
     (Index twoPages \<lparr>vptr = zeroptr, vdata = PArray [PInt 1, PNull]\<rparr> 1
        \<noteq> Some (Inl ErrNotAValidStream)
      \<and> Index twoPages \<lparr>vptr = zeroptr, vdata = PArray [PInt 1, PNull]\<rparr> 2
        = Some (Inl ErrNotAValidStream))
   \<and> Len \<lparr>vptr = zeroptr, vdata = PArray [PInt 1, PNull]\<rparr> = 2"
  using Len_iff_Index_bounds [of "\<lparr>vptr = zeroptr, vdata = PArray [PInt 1, PNull]\<rparr>"
      "[PInt 1, PNull]" 2 twoPages]
  by (simp add: Len_def)

text \<open>
  The claim as the specification words it fails in both directions. In the array
  \<open>[1 null]\<close>, \<open>index(a, 0)\<close> succeeds and \<open>index(a, 1)\<close> returns a null value with no
  error, yet the length is 2, not 1. In the array \<open>[9 0 R]\<close> of length 1, with a table of
  four slots, \<open>index(a, 0)\<close> does not succeed: it fails with \<open>ErrObjectOutOfBounds\<close>.
\<close>

theorem Index_Len_counterexample:
  "Index twoPages \<lparr>vptr = zeroptr, vdata = PArray [PInt 1, PNull]\<rparr> 0
     = Some (Inr \<lparr>vptr = zeroptr, vdata = PInt 1\<rparr>)
   \<and> Index twoPages \<lparr>vptr = zeroptr, vdata = PArray [PInt 1, PNull]\<rparr> 1
     = Some (Inr \<lparr>vptr = zeroptr, vdata = PNull\<rparr>)
   \<and> IsNull \<lparr>vptr = zeroptr, vdata = PNull\<rparr>
   \<and> Len \<lparr>vptr = zeroptr, vdata = PArray [PInt 1, PNull]\<rparr> \<noteq> 1
   \<and> Len \<lparr>vptr = zeroptr, vdata = PArray [PObjPtr \<lparr>id' = 9, gen = 0\<rparr>]\<rparr> = 1
   \<and> Index twoPages \<lparr>vptr = zeroptr, vdata = PArray [PObjPtr \<lparr>id' = 9, gen = 0\<rparr>]\<rparr> 0
     = Some (Inl ErrObjectOutOfBounds)"
  by (simp add: Index_def Len_def IsNull_def resolve.simps twoPages_def)

section \<open>Inherited page attributes\<close>

text \<open>
  \<open>findInherited\<close> answers from the page's own dictionary: a key the dictionary lacks
  comes back as a null value, whatever the ancestors hold.
\<close>

lemma findInherited_own_dict_only:
  "map_of d k = None \<Longrightarrow>
     findInherited r \<lparr>V = \<lparr>vptr = q, vdata = PDict d\<rparr>\<rparr> k
       = Some (Inr \<lparr>vptr = q, vdata = PNull\<rparr>)"
  by (simp add: findInherited_def Kind_def Key_def dictGet_def resolve.simps)

text \<open>
  C4 on the two-object document: the page has no \<open>MediaBox\<close>, its \<open>Parent\<close> has
  \<open>[0 0 612 792]\<close>, and \<open>MediaBox\<close> returns a null value, not the parent's box.
\<close>

theorem MediaBox_not_inherited:
  "MediaBox twoPages thePage = Some (Inr \<lparr>vptr = \<lparr>id' = 2, gen = 0\<rparr>, vdata = PNull\<rparr>)
   \<and> Key twoPages (V thePage) ''Parent''
       = Some (Inr \<lparr>vptr = \<lparr>id' = 1, gen = 0\<rparr>, vdata = pagesNode\<rparr>)
   \<and> Key twoPages \<lparr>vptr = \<lparr>id' = 1, gen = 0\<rparr>, vdata = pagesNode\<rparr> ''MediaBox''
       = Some (Inr \<lparr>vptr = \<lparr>id' = 1, gen = 0\<rparr>,
            vdata = PArray [PInt 0, PInt 0, PInt 612, PInt 792]\<rparr>)"
  by (simp add: MediaBox_def findInherited_def Kind_def Key_def dictGet_def resolve.simps
      thePage_def pageLeaf_def pagesNode_def twoPages_def twoObjects_def Let_def
      freeSlot_def zeroxref_def zeroptr_def word_le_nat_alt)

section \<open>The PNG-Up predictor\<close>

lemma Read_zero: "Read st 0 = ([], None, st)"
  by (simp add: Read.simps)

lemma Read_pend_part:
  "n \<le> length (png_pend st) \<Longrightarrow>
     Read st n = (take n (png_pend st), None, st\<lparr>png_pend := drop n (png_pend st)\<rparr>)"
  by (subst Read.simps) (auto simp: Read_zero min_def)

lemma Read_pend_all:
  assumes "length (png_pend st) < n"
  shows "Read st n = (case Read (st\<lparr>png_pend := []\<rparr>) (n - length (png_pend st)) of
        (out, res) \<Rightarrow> (png_pend st @ out, res))"
proof (cases "png_pend st = []")
  case True
  then have e: "st\<lparr>png_pend := []\<rparr> = st" by (cases st) simp
  show ?thesis unfolding e using True by (simp split: prod.splits)
next
  case False
  with assms show ?thesis
    by (subst Read.simps) (auto simp: min_def split: prod.splits)
qed

lemma Read_row:
  assumes "png_pend st = []" and "0 < n" and "length p = cols"
    and "length (png_tmp st) = Suc cols" and "length (png_hist st) = Suc cols"
    and "png_r st = (2 # p) @ rest"
  shows "Read st n = Read (st\<lparr>png_r := rest, png_tmp := 2 # p,
            png_hist := map2 (+) (png_hist st) (2 # p),
            png_pend := tl (map2 (+) (png_hist st) (2 # p))\<rparr>) n"
  using assms by (subst Read.simps) (auto simp: neq_Nil_conv)

lemma Read_bad_row:
  assumes "png_pend st = []" and "0 < n" and "length (png_tmp st) = Suc cols"
    and "png_r st = f # rest" and "f \<noteq> 2" and "cols \<le> length rest"
  shows "\<exists>st'. Read st n = ([], Some (Errorf ''malformed PNG-Up encoding''), st')"
proof -
  from assms have "png_tmp st \<noteq> []" by auto
  with assms show ?thesis by (subst Read.simps) auto
qed

lemma Read_eof:
  assumes "png_pend st = []" and "0 < n" and "length (png_tmp st) = Suc cols"
    and "png_r st = []"
  shows "Read st n = ([], Some EOF, st)"
proof -
  from assms have "png_tmp st \<noteq> []" by auto
  with assms show ?thesis by (subst Read.simps) auto
qed

lemma length_hists: "length (hists h rows) = length rows"
  by (induction rows arbitrary: h) simp_all

text \<open>
  One row: the reader takes the row \<open>2 # p\<close> from the stream, adds it to the history and
  hands out the history without its first byte.
\<close>

lemma Read_first_row:
  assumes "png_pend st = []" and "length (png_tmp st) = Suc cols"
    and "length (png_hist st) = Suc cols" and "length p = cols"
    and "png_r st = encodeUp (p # ps) @ rest"
  defines "h1 \<equiv> map2 (+) (png_hist st) (2 # p)"
  defines "st2 \<equiv> st\<lparr>png_r := encodeUp ps @ rest, png_tmp := 2 # p,
            png_hist := h1, png_pend := []\<rparr>"
  shows "n \<le> cols \<Longrightarrow> fst (Read st n) = take n (tl h1) \<and> fst (snd (Read st n)) = None"
    and "cols < n \<Longrightarrow>
           Read st n = (case Read st2 (n - cols) of (out, res) \<Rightarrow> (tl h1 @ out, res))"
proof -
  define st1 where "st1 = st\<lparr>png_r := encodeUp ps @ rest, png_tmp := 2 # p,
            png_hist := h1, png_pend := tl h1\<rparr>"
  have lp: "length (tl h1) = cols"
    using assms(3,4) by (simp add: h1_def)
  have row: "Read st n = Read st1 n" if "0 < n"
    unfolding st1_def h1_def
    using that assms(1-5) by (intro Read_row [where cols = cols]) (simp_all add: encodeUp_def)
  show "fst (Read st n) = take n (tl h1) \<and> fst (snd (Read st n)) = None" if n: "n \<le> cols"
  proof (cases "n = 0")
    case True
    then show ?thesis by (simp add: Read_zero)
  next
    case False
    then have r: "Read st n = Read st1 n" using row by simp
    from n have "n \<le> length (png_pend st1)" using lp by (simp add: st1_def)
    from Read_pend_part [OF this] show ?thesis
      using r by (simp add: st1_def)
  qed
  show "Read st n = (case Read st2 (n - cols) of (out, res) \<Rightarrow> (tl h1 @ out, res))"
    if n: "cols < n"
  proof -
    from n have r: "Read st n = Read st1 n" using row by simp
    from n have "length (png_pend st1) < n" using lp by (simp add: st1_def)
    from Read_pend_all [OF this] show ?thesis
      using r lp by (simp add: st1_def st2_def)
  qed
qed

lemma Read_rows_within:
  assumes "png_pend st = []" and "length (png_tmp st) = Suc cols"
    and "length (png_hist st) = Suc cols" and "\<forall>p\<in>set rows. length p = cols"
    and "png_r st = encodeUp rows @ rest" and "n \<le> cols * length rows"
  shows "fst (Read st n) = take n (concat (map tl (hists (png_hist st) rows)))
           \<and> fst (snd (Read st n)) = None"
  using assms
proof (induction rows arbitrary: st n)
  case Nil
  then show ?case by (simp add: Read_zero)
next
  case (Cons p ps)
  define h1 where "h1 = map2 (+) (png_hist st) (2 # p)"
  define st2 where "st2 = st\<lparr>png_r := encodeUp ps @ rest, png_tmp := 2 # p,
            png_hist := h1, png_pend := []\<rparr>"
  from Cons.prems have lp: "length p = cols" and lh: "length (tl h1) = cols"
    by (simp_all add: h1_def)
  note step = Read_first_row [OF Cons.prems(1-3) lp Cons.prems(5), folded h1_def]
  show ?case
  proof (cases "n \<le> cols")
    case True
    from step(1) [OF this] show ?thesis
      using True lh by (simp add: h1_def)
  next
    case False
    then have e: "Read st n = (case Read st2 (n - cols) of (out, res) \<Rightarrow> (tl h1 @ out, res))"
      using step(2) by (simp add: st2_def)
    have "fst (Read st2 (n - cols)) = take (n - cols) (concat (map tl (hists (png_hist st2) ps)))
           \<and> fst (snd (Read st2 (n - cols))) = None"
      using Cons.prems False by (intro Cons.IH) (simp_all add: st2_def h1_def)
    then show ?thesis
      using e lh False by (auto simp: h1_def st2_def split: prod.splits)
  qed
qed

lemma Read_rows_beyond:
  assumes "png_pend st = []" and "length (png_tmp st) = Suc cols"
    and "length (png_hist st) = Suc cols" and "\<forall>p\<in>set rows. length p = cols"
    and "png_r st = encodeUp rows @ rest" and "cols * length rows < n"
  shows "\<exists>st'. png_pend st' = [] \<and> length (png_tmp st') = Suc cols \<and> png_r st' = rest
             \<and> Read st n = (case Read st' (n - cols * length rows) of
                   (out, res) \<Rightarrow> (concat (map tl (hists (png_hist st) rows)) @ out, res))"
  using assms
proof (induction rows arbitrary: st n)
  case Nil
  then show ?case by (intro exI [of _ st]) (simp add: encodeUp_def)
next
  case (Cons p ps)
  define h1 where "h1 = map2 (+) (png_hist st) (2 # p)"
  define st2 where "st2 = st\<lparr>png_r := encodeUp ps @ rest, png_tmp := 2 # p,
            png_hist := h1, png_pend := []\<rparr>"
  from Cons.prems have lp: "length p = cols" and lh: "length (tl h1) = cols"
    by (simp_all add: h1_def)
  note step = Read_first_row [OF Cons.prems(1-3) lp Cons.prems(5), folded h1_def]
  from Cons.prems have n: "cols < n" by auto
  then have e: "Read st n = (case Read st2 (n - cols) of (out, res) \<Rightarrow> (tl h1 @ out, res))"
    using step(2) by (simp add: st2_def)
  have "\<exists>st'. png_pend st' = [] \<and> length (png_tmp st') = Suc cols \<and> png_r st' = rest
             \<and> Read st2 (n - cols) = (case Read st' (n - cols - cols * length ps) of
                   (out, res) \<Rightarrow> (concat (map tl (hists (png_hist st2) ps)) @ out, res))"
    using Cons.prems by (intro Cons.IH) (simp_all add: st2_def h1_def)
  then obtain st' where
    st': "png_pend st' = []" "length (png_tmp st') = Suc cols" "png_r st' = rest"
      "Read st2 (n - cols) = (case Read st' (n - cols - cols * length ps) of
          (out, res) \<Rightarrow> (concat (map tl (hists (png_hist st2) ps)) @ out, res))"
    by blast
  show ?case
    using e st' by (intro exI [of _ st']) (simp add: h1_def st2_def split: prod.splits)
qed

text \<open>The history after row \<open>i\<close>, less its first byte, is the sum of the rows so far.\<close>

lemma sumRow_hists:
  "length h = Suc cols \<Longrightarrow> \<forall>p\<in>set rows. length p = cols \<Longrightarrow> i < length rows \<Longrightarrow>
     tl (hists h rows ! i) = map (\<lambda>k. tl h ! k + (\<Sum>j\<le>i. rows ! j ! k)) [0..<cols]"
proof (induction rows arbitrary: h i)
  case Nil
  then show ?case by simp
next
  case (Cons p ps)
  from Cons.prems have lh: "length (tl h) = cols" and lp: "length p = cols" by simp_all
  have first: "tl (map2 (+) h (2 # p)) = map (\<lambda>k. tl h ! k + p ! k) [0..<cols]"
    using Cons.prems lh lp by (cases h) (auto intro!: nth_equalityI)
  show ?case
  proof (cases i)
    case 0
    then show ?thesis using first by simp
  next
    case (Suc i')
    have "tl (hists (map2 (+) h (2 # p)) ps ! i') =
        map (\<lambda>k. tl (map2 (+) h (2 # p)) ! k + (\<Sum>j\<le>i'. ps ! j ! k)) [0..<cols]"
      using Cons.prems Suc by (intro Cons.IH) simp_all
    then show ?thesis
      using Suc first by (simp add: sum.atMost_Suc_shift add.assoc del: sum.atMost_Suc)
  qed
qed

lemma hists_zero_sumRows:
  assumes "\<forall>p\<in>set rows. length p = cols"
  shows "concat (map tl (hists (replicate (Suc cols) 0) rows)) = sumRows cols rows"
proof -
  have "map tl (hists (replicate (Suc cols) 0) rows) = map (sumRow cols rows) [0..<length rows]"
    using assms
    by (intro nth_equalityI) (simp_all add: length_hists sumRow_hists sumRow_def)
  then show ?thesis by (simp add: sumRows_def)
qed

text \<open>
  Reading across calls. A read within the rows at hand returns the next bytes that are
  pending and leaves a reader that stands before the rows that remain, with the rest of
  the bytes pending: what was handed out does not depend on how the calls cut the stream.
\<close>

lemma length_hists_rows:
  "length h = Suc cols \<Longrightarrow> \<forall>p\<in>set rows. length p = cols \<Longrightarrow>
     length (concat (map tl (hists h rows))) = cols * length rows"
  by (induction rows arbitrary: h) simp_all

lemma Read_rows_state:
  assumes "png_pend st = []" and "length (png_tmp st) = Suc cols"
    and "length (png_hist st) = Suc cols" and "\<forall>p\<in>set rows. length p = cols"
    and "png_r st = encodeUp rows @ rest" and "n \<le> cols * length rows"
  shows "\<exists>st' rows'. Read st n = (take n (pending st rows), None, st')
           \<and> length (png_tmp st') = Suc cols \<and> length (png_hist st') = Suc cols
           \<and> (\<forall>p\<in>set rows'. length p = cols) \<and> png_r st' = encodeUp rows' @ rest
           \<and> pending st' rows' = drop n (pending st rows)"
  using assms
proof (induction rows arbitrary: st n)
  case Nil
  then show ?case
    by (intro exI [of _ st] exI [of _ "[]"]) (simp add: Read_zero pending_def)
next
  case (Cons p ps)
  define h1 where "h1 = map2 (+) (png_hist st) (2 # p)"
  define st1 where "st1 = st\<lparr>png_r := encodeUp ps @ rest, png_tmp := 2 # p,
            png_hist := h1, png_pend := tl h1\<rparr>"
  from Cons.prems have lp: "length p = cols" and lh: "length (tl h1) = cols"
    and lh1: "length h1 = Suc cols"
    by (simp_all add: h1_def)
  have pend: "pending st (p # ps) = tl h1 @ concat (map tl (hists h1 ps))"
    using Cons.prems(1) by (simp add: pending_def h1_def)
  show ?case
  proof (cases "n = 0")
    case True
    with Cons.prems show ?thesis
      by (intro exI [of _ st] exI [of _ "p # ps"]) (simp add: Read_zero)
  next
    case False
    then have row: "Read st n = Read st1 n"
      unfolding st1_def h1_def
      using Cons.prems by (intro Read_row [where cols = cols]) (simp_all add: encodeUp_def)
    show ?thesis
    proof (cases "n \<le> cols")
      case True
      then have "n \<le> length (png_pend st1)" using lh by (simp add: st1_def)
      from Read_pend_part [OF this]
      have "Read st n = (take n (tl h1), None, st1\<lparr>png_pend := drop n (tl h1)\<rparr>)"
        using row by (simp add: st1_def)
      then have r: "Read st n = (take n (pending st (p # ps)), None,
          st1\<lparr>png_pend := drop n (tl h1)\<rparr>)"
        using True lh by (simp add: pend)
      have "pending (st1\<lparr>png_pend := drop n (tl h1)\<rparr>) ps = drop n (tl h1) @ concat (map tl (hists h1 ps))"
        by (simp add: pending_def st1_def)
      then have d: "pending (st1\<lparr>png_pend := drop n (tl h1)\<rparr>) ps = drop n (pending st (p # ps))"
        using True lh by (simp add: pend)
      have i: "length (png_tmp (st1\<lparr>png_pend := drop n (tl h1)\<rparr>)) = Suc cols"
        "length (png_hist (st1\<lparr>png_pend := drop n (tl h1)\<rparr>)) = Suc cols"
        "\<forall>p\<in>set ps. length p = cols"
        "png_r (st1\<lparr>png_pend := drop n (tl h1)\<rparr>) = encodeUp ps @ rest"
        using lh1 lp Cons.prems(4) by (simp_all add: st1_def)
      from r d i show ?thesis
        by (intro exI [of _ "st1\<lparr>png_pend := drop n (tl h1)\<rparr>"] exI [of _ ps]) simp
    next
      case False
      define st2 where "st2 = st1\<lparr>png_pend := []\<rparr>"
      from False have "length (png_pend st1) < n" using lh by (simp add: st1_def)
      from Read_pend_all [OF this]
      have e: "Read st n = (case Read st2 (n - cols) of (out, res) \<Rightarrow> (tl h1 @ out, res))"
        using row lh by (simp add: st1_def st2_def)
      have "\<exists>st' rows'. Read st2 (n - cols) = (take (n - cols) (pending st2 ps), None, st')
           \<and> length (png_tmp st') = Suc cols \<and> length (png_hist st') = Suc cols
           \<and> (\<forall>p\<in>set rows'. length p = cols) \<and> png_r st' = encodeUp rows' @ rest
           \<and> pending st' rows' = drop (n - cols) (pending st2 ps)"
        using Cons.prems False lh1 lp by (intro Cons.IH) (simp_all add: st2_def st1_def)
      then obtain st' rows' where
        r: "Read st2 (n - cols) = (take (n - cols) (pending st2 ps), None, st')"
        and i: "length (png_tmp st') = Suc cols" "length (png_hist st') = Suc cols"
          "\<forall>p\<in>set rows'. length p = cols" "png_r st' = encodeUp rows' @ rest"
        and d: "pending st' rows' = drop (n - cols) (pending st2 ps)"
        by blast
      have p2: "pending st2 ps = concat (map tl (hists h1 ps))"
        by (simp add: pending_def st2_def st1_def)
      from e r have "Read st n = (take n (pending st (p # ps)), None, st')"
        using False lh by (simp add: pend p2)
      moreover have "pending st' rows' = drop n (pending st (p # ps))"
        using d False lh by (simp add: pend p2)
      ultimately show ?thesis
        using i by (intro exI [of _ st'] exI [of _ rows']) simp
    qed
  qed
qed

lemma length_pending:
  "ready cols st rows rest \<Longrightarrow>
     length (pending st rows) = length (png_pend st) + cols * length rows"
  by (simp add: pending_def ready_def length_hists_rows)

lemma Read_stream:
  assumes "ready cols st rows rest" and "n \<le> length (pending st rows)"
  shows "\<exists>st' rows'. Read st n = (take n (pending st rows), None, st')
           \<and> ready cols st' rows' rest \<and> pending st' rows' = drop n (pending st rows)"
proof (cases "n \<le> length (png_pend st)")
  case True
  from Read_pend_part [OF True]
  have "Read st n = (take n (pending st rows), None, st\<lparr>png_pend := drop n (png_pend st)\<rparr>)"
    using True by (simp add: pending_def)
  moreover have "pending (st\<lparr>png_pend := drop n (png_pend st)\<rparr>) rows = drop n (pending st rows)"
    using True by (simp add: pending_def)
  moreover have "ready cols (st\<lparr>png_pend := drop n (png_pend st)\<rparr>) rows rest"
    using assms(1) by (simp add: ready_def)
  ultimately show ?thesis by blast
next
  case False
  define st0 where "st0 = st\<lparr>png_pend := []\<rparr>"
  define m where "m = n - length (png_pend st)"
  from False have "length (png_pend st) < n" by simp
  from Read_pend_all [OF this]
  have e: "Read st n = (case Read st0 m of (out, res) \<Rightarrow> (png_pend st @ out, res))"
    by (simp add: st0_def m_def)
  have m: "m \<le> cols * length rows"
    using assms(2) length_pending [OF assms(1)] by (simp add: m_def)
  have "\<exists>st' rows'. Read st0 m = (take m (pending st0 rows), None, st')
           \<and> length (png_tmp st') = Suc cols \<and> length (png_hist st') = Suc cols
           \<and> (\<forall>p\<in>set rows'. length p = cols) \<and> png_r st' = encodeUp rows' @ rest
           \<and> pending st' rows' = drop m (pending st0 rows)"
    using assms(1) m by (intro Read_rows_state) (simp_all add: st0_def ready_def)
  then obtain st' rows' where
    r: "Read st0 m = (take m (pending st0 rows), None, st')"
    and i: "ready cols st' rows' rest"
    and d: "pending st' rows' = drop m (pending st0 rows)"
    unfolding ready_def by blast
  have p0: "pending st rows = png_pend st @ pending st0 rows"
    by (simp add: pending_def st0_def)
  from e r have "Read st n = (take n (pending st rows), None, st')"
    using False by (simp add: p0 m_def)
  moreover have "pending st' rows' = drop n (pending st rows)"
    using d False by (simp add: p0 m_def)
  ultimately show ?thesis using i by blast
qed

lemma Reads_stream:
  "ready cols st rows rest \<Longrightarrow> sum_list ns \<le> length (pending st rows) \<Longrightarrow>
     \<exists>rows'. ready cols (Reads st ns) rows' rest
        \<and> pending (Reads st ns) rows' = drop (sum_list ns) (pending st rows)"
proof (induction ns arbitrary: st rows)
  case Nil
  then show ?case by auto
next
  case (Cons n ns)
  from Cons.prems have "n \<le> length (pending st rows)" by simp
  from Read_stream [OF Cons.prems(1) this] obtain st' rows' where
    r: "Read st n = (take n (pending st rows), None, st')"
    and i: "ready cols st' rows' rest"
    and d: "pending st' rows' = drop n (pending st rows)"
    by blast
  from Cons.prems(2) d have "sum_list ns \<le> length (pending st' rows')" by simp
  from Cons.IH [OF i this] obtain rows'' where
    "ready cols (Reads st' ns) rows'' rest"
    "pending (Reads st' ns) rows'' = drop (sum_list ns) (pending st' rows')"
    by blast
  with r d show ?case
    by (intro exI [of _ rows'']) (simp add: add.commute)
qed

lemma Read_stream_bad:
  assumes "ready cols st rows (f # bad)" and "f \<noteq> 2" and "cols \<le> length bad"
    and "length (pending st rows) < n"
  shows "\<exists>st'. Read st n = (pending st rows, Some (Errorf ''malformed PNG-Up encoding''), st')"
proof -
  define st0 where "st0 = st\<lparr>png_pend := []\<rparr>"
  define m where "m = n - length (png_pend st)"
  from assms(4) length_pending [OF assms(1)]
  have n: "length (png_pend st) < n" and m: "cols * length rows < m"
    by (simp_all add: m_def)
  from Read_pend_all [OF n]
  have e: "Read st n = (case Read st0 m of (out, res) \<Rightarrow> (png_pend st @ out, res))"
    by (simp add: st0_def m_def)
  have "\<exists>st'. png_pend st' = [] \<and> length (png_tmp st') = Suc cols \<and> png_r st' = f # bad
             \<and> Read st0 m = (case Read st' (m - cols * length rows) of
                   (out, res) \<Rightarrow> (concat (map tl (hists (png_hist st0) rows)) @ out, res))"
    using assms(1) m by (intro Read_rows_beyond) (simp_all add: st0_def ready_def)
  then obtain st' where
    st': "png_pend st' = []" "length (png_tmp st') = Suc cols" "png_r st' = f # bad"
      "Read st0 m = (case Read st' (m - cols * length rows) of
          (out, res) \<Rightarrow> (concat (map tl (hists (png_hist st0) rows)) @ out, res))"
    by blast
  from m have "0 < m - cols * length rows" by simp
  from Read_bad_row [OF st'(1) this st'(2,3) assms(2,3)] obtain st'' where
    "Read st' (m - cols * length rows) = ([], Some (Errorf ''malformed PNG-Up encoding''), st'')"
    by blast
  with st'(4) e have "Read st n = (pending st rows, Some (Errorf ''malformed PNG-Up encoding''), st'')"
    by (simp add: pending_def st0_def)
  then show ?thesis by blast
qed

lemma take_drop_concat_row:
  "\<forall>xs\<in>set xss. length xs = c \<Longrightarrow> i < length xss \<Longrightarrow>
     take c (drop (i * c) (concat xss)) = xss ! i"
proof (induction xss arbitrary: i)
  case Nil
  then show ?case by simp
next
  case (Cons xs xss)
  show ?case
  proof (cases i)
    case 0
    with Cons.prems show ?thesis by simp
  next
    case (Suc k)
    with Cons.prems have "take c (drop (k * c) (concat xss)) = xss ! k"
      by (intro Cons.IH) simp_all
    with Cons.prems Suc show ?thesis by (simp add: add.commute)
  qed
qed

lemma sumRows_row:
  "i < length rows \<Longrightarrow>
     take columns (drop (i * columns) (sumRows columns rows)) = sumRow columns rows i"
  unfolding sumRows_def
  by (subst take_drop_concat_row) (simp_all add: sumRow_def)

lemma fresh_ready:
  "\<forall>p\<in>set rows. length p = columns \<Longrightarrow>
     ready columns (newPngUpReader (encodeUp rows @ rest) (int columns)) rows rest
     \<and> pending (newPngUpReader (encodeUp rows @ rest) (int columns)) rows = sumRows columns rows"
  using hists_zero_sumRows [of rows columns]
  by (simp add: ready_def pending_def newPngUpReader_def nat_add_distrib)

lemma length_sumRows: "length (sumRows columns rows) = columns * length rows"
  by (induction rows rule: rev_induct) (simp_all add: sumRows_def sumRow_def length_concat o_def sum_list_triv)

text \<open>
  C7. With every filter byte 2, the bytes that \<open>Read\<close> hands out are the running sums of
  the payload rows, row after row, whatever the calls before: after calls that took
  \<open>sum_list ns\<close> bytes in all, a read of \<open>n\<close> bytes within the encoded rows returns the
  next \<open>n\<close> bytes of \<open>sumRows\<close> and no error. Read row by row, call number \<open>i\<close> returns
  the sum of the payload rows \<open>p\<^sub>0 \<dots> p\<^sub>i\<close>. A complete row whose filter byte is not 2
  makes the read that reaches it fail with \<open>malformed PNG-Up encoding\<close>, after the bytes
  of the rows before it have been handed out.
\<close>

theorem pngUp_running_sums:
  assumes "\<forall>p\<in>set rows. length p = columns"
  shows "(sum_list ns + n \<le> columns * length rows \<longrightarrow>
            fst (Read (Reads (newPngUpReader (encodeUp rows @ rest) (int columns)) ns) n)
              = take n (drop (sum_list ns) (sumRows columns rows))
            \<and> fst (snd (Read (Reads (newPngUpReader (encodeUp rows @ rest) (int columns)) ns) n))
              = None)
       \<and> (i < length rows \<longrightarrow>
            fst (Read (Reads (newPngUpReader (encodeUp rows @ rest) (int columns))
                   (replicate i columns)) columns)
              = sumRow columns rows i
            \<and> fst (snd (Read (Reads (newPngUpReader (encodeUp rows @ rest) (int columns))
                   (replicate i columns)) columns))
              = None)
       \<and> (sum_list ns \<le> columns * length rows \<and> columns * length rows < sum_list ns + n
            \<and> f \<noteq> 2 \<and> columns \<le> length bad \<longrightarrow>
            fst (Read (Reads (newPngUpReader (encodeUp rows @ f # bad) (int columns)) ns) n)
              = drop (sum_list ns) (sumRows columns rows)
            \<and> fst (snd (Read (Reads (newPngUpReader (encodeUp rows @ f # bad) (int columns)) ns) n))
              = Some (Errorf ''malformed PNG-Up encoding''))"
proof -
  have within: "fst (Read (Reads (newPngUpReader (encodeUp rows @ rest) (int columns)) ms) m)
              = take m (drop (sum_list ms) (sumRows columns rows))
            \<and> fst (snd (Read (Reads (newPngUpReader (encodeUp rows @ rest) (int columns)) ms) m))
              = None"
    if le: "sum_list ms + m \<le> columns * length rows" for ms m
  proof -
    define st where "st = newPngUpReader (encodeUp rows @ rest) (int columns)"
    from fresh_ready [OF assms] have st: "ready columns st rows rest"
      and p: "pending st rows = sumRows columns rows"
      by (simp_all add: st_def)
    from le have "sum_list ms \<le> length (pending st rows)"
      by (simp add: p length_sumRows)
    from Reads_stream [OF st this] obtain rows' where
      r: "ready columns (Reads st ms) rows' rest"
      and d: "pending (Reads st ms) rows' = drop (sum_list ms) (sumRows columns rows)"
      by (auto simp: p)
    from le have "m \<le> length (pending (Reads st ms) rows')"
      by (simp add: d length_sumRows)
    from Read_stream [OF r this] d show ?thesis
      by (auto simp: st_def)
  qed
  have row: "fst (Read (Reads (newPngUpReader (encodeUp rows @ rest) (int columns))
                   (replicate i columns)) columns)
              = sumRow columns rows i
            \<and> fst (snd (Read (Reads (newPngUpReader (encodeUp rows @ rest) (int columns))
                   (replicate i columns)) columns))
              = None"
    if i: "i < length rows"
  proof -
    from i have "Suc i \<le> length rows" by simp
    then have "Suc i * columns \<le> length rows * columns" by (rule mult_le_mono1)
    then have "sum_list (replicate i columns) + columns \<le> columns * length rows"
      by (simp add: sum_list_replicate mult.commute)
    from within [OF this] sumRows_row [OF i, of columns] show ?thesis
      by (simp add: sum_list_replicate)
  qed
  have bad: "fst (Read (Reads (newPngUpReader (encodeUp rows @ f # bad) (int columns)) ns) n)
              = drop (sum_list ns) (sumRows columns rows)
            \<and> fst (snd (Read (Reads (newPngUpReader (encodeUp rows @ f # bad) (int columns)) ns) n))
              = Some (Errorf ''malformed PNG-Up encoding'')"
    if a: "sum_list ns \<le> columns * length rows \<and> columns * length rows < sum_list ns + n
            \<and> f \<noteq> 2 \<and> columns \<le> length bad"
  proof -
    define st where "st = newPngUpReader (encodeUp rows @ f # bad) (int columns)"
    from fresh_ready [OF assms] have st: "ready columns st rows (f # bad)"
      and p: "pending st rows = sumRows columns rows"
      by (simp_all add: st_def)
    from a have "sum_list ns \<le> length (pending st rows)"
      by (simp add: p length_sumRows)
    from Reads_stream [OF st this] obtain rows' where
      r: "ready columns (Reads st ns) rows' (f # bad)"
      and d: "pending (Reads st ns) rows' = drop (sum_list ns) (sumRows columns rows)"
      by (auto simp: p)
    from a have "length (pending (Reads st ns) rows') < n"
      by (auto simp: d length_sumRows)
    from Read_stream_bad [OF r _ _ this] a d show ?thesis
      by (auto simp: st_def)
  qed
  from within [of ns n] row bad show ?thesis by blast
qed

lemma sumRows_example:
  "sumRows 3 [[1, 2, 3], [10, 20, 30], [250, 250, 250]] = [1, 2, 3, 11, 22, 33, 5, 16, 27]"
  "sumRows 3 [[1, 2, 3], [10, 20, 30]] = [1, 2, 3, 11, 22, 33]"
  "sumRow 3 [[1, 2, 3], [10, 20, 30], [250, 250, 250]] 2 = [5, 16, 27]"
  by code_simp+

lemma replicate_example: "replicate 2 (3 :: nat) = [3, 3]"
  by (simp add: numeral_2_eq_2)

theorem pngUp_running_sums_witness:
  "fst (Read (Reads (newPngUpReader (encodeUp [[1, 2, 3], [10, 20, 30], [250, 250, 250]]) 3)
          [3]) 3) = [11, 22, 33]
   \<and> fst (snd (Read (Reads (newPngUpReader
          (encodeUp [[1, 2, 3], [10, 20, 30], [250, 250, 250]]) 3) [3]) 3)) = None
   \<and> fst (Read (Reads (newPngUpReader (encodeUp [[1, 2, 3], [10, 20, 30], [250, 250, 250]]) 3)
          [3, 3]) 3) = [5, 16, 27]
   \<and> fst (Read (Reads (newPngUpReader (encodeUp [[1, 2, 3], [10, 20, 30]] @ [1, 4, 4, 4]) 3)
          [2]) 7) = [3, 11, 22, 33]
   \<and> fst (snd (Read (Reads (newPngUpReader (encodeUp [[1, 2, 3], [10, 20, 30]] @ [1, 4, 4, 4]) 3)
          [2]) 7)) = Some (Errorf ''malformed PNG-Up encoding'')"
  using
    pngUp_running_sums [of "[[1, 2, 3], [10, 20, 30], [250, 250, 250]]" 3 "[3]" 3 "[]" 2 0 "[]"]
    pngUp_running_sums [of "[[1, 2, 3], [10, 20, 30]]" 3 "[2]" 7 "[]" 0 1 "[4, 4, 4]"]
  by (simp add: sumRows_example replicate_example)

section \<open>The password callback\<close>

text \<open>
  The loop from call number \<open>j\<close> on: if the answers before number \<open>k\<close> are non-empty and
  fail, and answer \<open>k\<close> is empty or succeeds, the loop ends at call \<open>k\<close>.
\<close>

lemma tryPasswords_stops:
  assumes "j \<le> k"
    and "\<forall>i. j \<le> i \<and> i < k \<longrightarrow> pw i \<noteq> [] \<and> failed (init (pw i))"
    and "pw k = [] \<or> \<not> failed (init (pw k))"
  shows "tryPasswords init pw err j =
           Some (if pw k = [] then Inl err else init (pw k), Suc k)"
  using assms
proof (induction "k - j" arbitrary: j)
  case 0
  then have "j = k" by simp
  with 0 show ?case
    by (subst tryPasswords.simps) (auto simp: failed_def split: sum.splits)
next
  case (Suc d)
  then have "j < k" by simp
  with Suc.prems have "pw j \<noteq> []" and "failed (init (pw j))" by simp_all
  then have "tryPasswords init pw err j = tryPasswords init pw err (Suc j)"
    by (subst tryPasswords.simps) (auto simp: failed_def split: sum.splits)
  moreover have "tryPasswords init pw err (Suc j) =
           Some (if pw k = [] then Inl err else init (pw k), Suc k)"
    using Suc.hyps(2) Suc.prems \<open>j < k\<close> by (intro Suc.hyps(1)) auto
  ultimately show ?case by simp
qed

text \<open>
  C6. For a file whose trailer has an \<open>Encrypt\<close> entry: the empty password is tried first
  and the callback is not called when that attempt succeeds, or fails with an error other
  than \<open>ErrInvalidPassword\<close>, or when there is no callback. After \<open>ErrInvalidPassword\<close>
  the callback is called once for each failing answer and once more: the call whose
  answer is empty ends the attempts with \<open>ErrInvalidPassword\<close>, the call whose answer
  decrypts the file ends them with the reader.
\<close>

theorem NewReaderEncrypted_passwords:
  assumes "vdata (Trailer r) = PDict trailer" and "dictGet trailer ''Encrypt'' \<noteq> PNull"
  shows "(initEncrypt r [] = Inr r' \<longrightarrow>
            NewReaderEncrypted (Inr r) initEncrypt pw = Some (Inr r', 0))
       \<and> (initEncrypt r [] = Inl err \<and> (err \<noteq> ErrInvalidPassword \<or> pw = None) \<longrightarrow>
            NewReaderEncrypted (Inr r) initEncrypt pw = Some (Inl err, 0))
       \<and> (initEncrypt r [] = Inl ErrInvalidPassword
            \<and> (\<forall>i. i < k \<longrightarrow> ask i \<noteq> [] \<and> failed (initEncrypt r (ask i))) \<and> ask k = [] \<longrightarrow>
            NewReaderEncrypted (Inr r) initEncrypt (Some ask)
              = Some (Inl ErrInvalidPassword, Suc k))
       \<and> (initEncrypt r [] = Inl ErrInvalidPassword
            \<and> (\<forall>i. i < k \<longrightarrow> ask i \<noteq> [] \<and> failed (initEncrypt r (ask i)))
            \<and> ask k \<noteq> [] \<and> initEncrypt r (ask k) = Inr r' \<longrightarrow>
            NewReaderEncrypted (Inr r) initEncrypt (Some ask) = Some (Inr r', Suc k))"
proof (intro conjI impI)
  assume "initEncrypt r [] = Inr r'"
  with assms show "NewReaderEncrypted (Inr r) initEncrypt pw = Some (Inr r', 0)"
    by (simp add: NewReaderEncrypted_def)
next
  assume "initEncrypt r [] = Inl err \<and> (err \<noteq> ErrInvalidPassword \<or> pw = None)"
  with assms show "NewReaderEncrypted (Inr r) initEncrypt pw = Some (Inl err, 0)"
    by (auto simp: NewReaderEncrypted_def)
next
  assume a: "initEncrypt r [] = Inl ErrInvalidPassword
      \<and> (\<forall>i. i < k \<longrightarrow> ask i \<noteq> [] \<and> failed (initEncrypt r (ask i))) \<and> ask k = []"
  then have "tryPasswords (initEncrypt r) ask ErrInvalidPassword 0 =
      Some (if ask k = [] then Inl ErrInvalidPassword else initEncrypt r (ask k), Suc k)"
    by (intro tryPasswords_stops) auto
  with a assms show "NewReaderEncrypted (Inr r) initEncrypt (Some ask)
      = Some (Inl ErrInvalidPassword, Suc k)"
    by (simp add: NewReaderEncrypted_def)
next
  assume a: "initEncrypt r [] = Inl ErrInvalidPassword
      \<and> (\<forall>i. i < k \<longrightarrow> ask i \<noteq> [] \<and> failed (initEncrypt r (ask i)))
      \<and> ask k \<noteq> [] \<and> initEncrypt r (ask k) = Inr r'"
  then have "tryPasswords (initEncrypt r) ask ErrInvalidPassword 0 =
      Some (if ask k = [] then Inl ErrInvalidPassword else initEncrypt r (ask k), Suc k)"
    by (intro tryPasswords_stops) (auto simp: failed_def)
  with a assms show "NewReaderEncrypted (Inr r) initEncrypt (Some ask) = Some (Inr r', Suc k)"
    by (simp add: NewReaderEncrypted_def)
qed

theorem NewReaderEncrypted_passwords_witness:
  "NewReaderEncrypted (Inr encryptedReader) acceptSecret (Some twoGuesses)
     = Some (Inl ErrInvalidPassword, 3)
   \<and> NewReaderEncrypted (Inr encryptedReader) acceptSecret (Some guesses)
     = Some (Inr (encryptedReader\<lparr>key := Some [1, 2, 3, 4, 5]\<rparr>), 3)
   \<and> NewReaderEncrypted (Inr encryptedReader) acceptSecret None
     = Some (Inl ErrInvalidPassword, 0)"
  using
    NewReaderEncrypted_passwords [of encryptedReader
      "[(''Size'', PInt 4), (''Encrypt'', PDict [])]" acceptSecret encryptedReader None
      ErrInvalidPassword 2 twoGuesses]
    NewReaderEncrypted_passwords [of encryptedReader
      "[(''Size'', PInt 4), (''Encrypt'', PDict [])]" acceptSecret
      "encryptedReader\<lparr>key := Some [1, 2, 3, 4, 5]\<rparr>" None ErrInvalidPassword 2 guesses]
  by (simp add: encryptedReader_def acceptSecret_def guesses_def twoGuesses_def dictGet_def
      failed_def less_Suc_eq numeral_2_eq_2)

section \<open>Fonts\<close>

lemma bindR_simps [simp]:
  "bindR None f = None"
  "bindR (Some (Inl e)) f = Some (Inl e)"
  "bindR (Some (Inr x)) f = f x"
  by (simp_all add: bindR_def)

lemma valueOnly_error:
  "valueOnly (Some (Inl ErrNotAValidStream)) = Some (Inr NullValue)"
  by simp

text \<open>The accessors on a value of kind \<open>Null\<close>: null again, with length 0.\<close>

lemma KeyV_Null: "Kind v = Null \<Longrightarrow> KeyV r v k = Some (Inr NullValue)"
  by (cases "vdata v") (simp_all add: Kind_def KeyV_def Key_def)

lemma IndexV_Null: "Kind v = Null \<Longrightarrow> IndexV r v i = Some (Inr NullValue)"
  by (cases "vdata v") (simp_all add: Kind_def IndexV_def Index_def)

lemma Len_Null: "Kind v = Null \<Longrightarrow> Len v = 0"
  by (cases "vdata v") (simp_all add: Kind_def Len_def)

lemma Kind_NullValue: "Kind NullValue = Null"
  by (simp add: Kind_def NullValue_def)

lemma Float64_NullValue: "Float64 NullValue = 0"
  by (simp add: Float64_def NullValue_def)

text \<open>
  \<open>CreateCIDWidthGrabber\<close> gives up as soon as the font has a \<open>DescendantFonts\<close> entry
  that is not null, and when it does build a grabber, the grabber has no range and the
  default width 0: the array \<open>W\<close> is never read.
\<close>

lemma CreateCIDWidthGrabber_descendants:
  assumes "KeyV r fV ''DescendantFonts'' = Some (Inr df)" and "Kind df \<noteq> Null"
  shows "CreateCIDWidthGrabber r fV = Some (Inr (NilWidthGrabber, False))"
  using assms by (simp add: CreateCIDWidthGrabber_def)

lemma CreateCIDWidthGrabber_empty:
  assumes "CreateCIDWidthGrabber r fV = Some (Inr (wg, True))"
  shows "wg = CIDWidthGrabber [] [] 0"
proof (cases "KeyV r fV ''DescendantFonts''")
  case None
  with assms show ?thesis by (simp add: CreateCIDWidthGrabber_def)
next
  case (Some res)
  show ?thesis
  proof (cases res)
    case (Inl e)
    with Some assms show ?thesis by (simp add: CreateCIDWidthGrabber_def)
  next
    case (Inr df)
    show ?thesis
    proof (cases "Kind df = Null")
      case False
      with Some Inr assms show ?thesis by (simp add: CreateCIDWidthGrabber_def)
    next
      case True
      have "cidLoop r NullValue [] [] 0 = Some (Inr ([], []))"
        by (subst cidLoop.simps) (simp add: Len_Null Kind_NullValue)
      with Some Inr True assms show ?thesis
        by (simp add: CreateCIDWidthGrabber_def IndexV_Null KeyV_Null Kind_NullValue
            Float64_NullValue)
    qed
  qed
qed

text \<open>
  C5 on \<open>cidFont\<close>, whose \<open>DescendantFonts[0].W\<close> is the array \<open>[1 [500 600]]\<close> with
  \<open>DW\<close> 1000: the font gets the simple width grabber with no widths, and the codes 1, 2
  and 7 all have width 0, where the claim has 500, 600 and 1000.
\<close>

theorem FontFromValue_ignores_W:
  "FontFromValue noCmap twoPages cidFont
     = Some (Inr (Font cidFont (byteEncoder (DefaultWidthGrabber 0 0 []) pdfDocEncoding)))
   \<and> Width (DefaultWidthGrabber 0 0 []) 1 = Inr 0
   \<and> Width (DefaultWidthGrabber 0 0 []) 2 = Inr 0
   \<and> Width (DefaultWidthGrabber 0 0 []) 7 = Inr 0"
  by (simp add: FontFromValue_def CreateCIDWidthGrabber_def CreateDefaultWidthGrabber_def
      Encoder_def toUnicodeEncoder_def cidFont_def noCmap_def KeyV_def Key_def dictGet_def
      resolve.simps Kind_def Int64V_def NameV_def Len_def NullValue_def)

text \<open>What the encoders return when no width lookup panics.\<close>

lemma byteEncoder_Decode_total:
  "(\<forall>c\<in>set raw. \<not> isl (Width wg (of_char c))) \<Longrightarrow>
     byteEncoder_Decode table wg raw =
       Inr (map (\<lambda>c. PositionedChar [table c] (projr (Width wg (of_char c)))) raw)"
  by (induction raw) (auto split: sum.splits)

lemma nopEncoder_Decode_total:
  "(\<forall>c\<in>set raw. \<not> isl (Width wg (of_char c))) \<Longrightarrow>
     nopEncoder_Decode wg raw =
       Inr (map (\<lambda>c. PositionedChar [of_char c] (projr (Width wg (of_char c)))) raw)"
  by (induction raw) (auto split: sum.splits)

lemma diffScan_returns:
  assumes "\<forall>j. 0 \<le> j \<and> j < Len v \<longrightarrow> (\<exists>x. IndexV r v j = Some (Inr x))"
  shows "0 \<le> j \<Longrightarrow> \<exists>res. diffScan nameToRune r v b n ch j = Some (Inr res)"
proof (induction "nat (Len v - j)" arbitrary: j n)
  case 0
  then show ?case by (subst diffScan.simps) simp
next
  case (Suc d)
  then have j: "0 \<le> j" "j < Len v" by simp_all
  with assms obtain x where x: "IndexV r v j = Some (Inr x)" by blast
  have next': "\<exists>res. diffScan nameToRune r v b m ch (j + 1) = Some (Inr res)" for m
    using Suc.hyps(2) j by (intro Suc.hyps(1)) simp_all
  show ?case
    using j x next' by (subst diffScan.simps) simp
qed

lemma Width_Default_panics:
  "isl (Width (DefaultWidthGrabber first last' widths) code)
     = (first \<le> code \<and> code < last' \<and> length widths \<le> unat (code - first))"
  by (auto simp: not_less not_le)

lemma byteEncoder_Decode_panics:
  "\<exists>c\<in>set raw. isl (Width wg (of_char c)) \<Longrightarrow> isl (byteEncoder_Decode table wg raw)"
  by (induction raw) (fastforce split: sum.splits)+

lemma nopEncoder_Decode_panics:
  "\<exists>c\<in>set raw. isl (Width wg (of_char c)) \<Longrightarrow> isl (nopEncoder_Decode wg raw)"
  by (induction raw) (fastforce split: sum.splits)+

lemma dictEncoder_Decode_asked:
  assumes "\<forall>j. 0 \<le> j \<and> j < Len v \<longrightarrow> (\<exists>x. IndexV r v j = Some (Inr x))"
    and "\<forall>c\<in>set raw. \<not> isl (Width wg (word_of_int
          (projr (the (diffScan nameToRune r v c (- 1) (of_char c) 0)))))"
  shows "dictEncoder_Decode nameToRune r wg v raw =
       Some (Inr (map (\<lambda>c. PositionedChar
          [projr (the (diffScan nameToRune r v c (- 1) (of_char c) 0))]
          (projr (Width wg (word_of_int
             (projr (the (diffScan nameToRune r v c (- 1) (of_char c) 0))))))) raw))"
  using assms(2)
proof (induction raw)
  case Nil
  show ?case by simp
next
  case (Cons c raw)
  from diffScan_returns [OF assms(1), of 0 nameToRune c "- 1" "of_char c"]
  obtain res where res: "diffScan nameToRune r v c (- 1) (of_char c) 0 = Some (Inr res)"
    by auto
  from Cons.prems res have "\<not> isl (Width wg (word_of_int res))" by simp
  then obtain w where w: "Width wg (word_of_int res) = Inr w"
    by (cases "Width wg (word_of_int res)") auto
  from Cons have "dictEncoder_Decode nameToRune r wg v raw =
       Some (Inr (map (\<lambda>c. PositionedChar
          [projr (the (diffScan nameToRune r v c (- 1) (of_char c) 0))]
          (projr (Width wg (word_of_int
             (projr (the (diffScan nameToRune r v c (- 1) (of_char c) 0))))))) raw))"
    by simp
  then show ?case
    using res w by (simp add: bindR_def)
qed

lemma dictEncoder_Decode_panics:
  assumes "\<forall>j. 0 \<le> j \<and> j < Len v \<longrightarrow> (\<exists>x. IndexV r v j = Some (Inr x))"
    and "\<exists>c\<in>set raw. isl (Width wg (word_of_int
          (projr (the (diffScan nameToRune r v c (- 1) (of_char c) 0)))))"
  shows "\<exists>e. dictEncoder_Decode nameToRune r wg v raw = Some (Inl e)"
  using assms(2)
proof (induction raw)
  case Nil
  then show ?case by simp
next
  case (Cons c raw)
  from diffScan_returns [OF assms(1), of 0 nameToRune c "- 1" "of_char c"]
  obtain res where res: "diffScan nameToRune r v c (- 1) (of_char c) 0 = Some (Inr res)"
    by auto
  show ?case
  proof (cases "Width wg (word_of_int res)")
    case (Inl e)
    with res show ?thesis by (simp add: bindR_def)
  next
    case (Inr w)
    with Cons.prems res have "\<exists>c\<in>set raw. isl (Width wg (word_of_int
          (projr (the (diffScan nameToRune r v c (- 1) (of_char c) 0)))))"
      by auto
    from Cons.IH [OF this] obtain e where
      "dictEncoder_Decode nameToRune r wg v raw = Some (Inl e)" by blast
    with res Inr show ?thesis by (simp add: bindR_def)
  qed
qed

text \<open>
  C10, as the code has it. Each of the three byte-oriented encoders returns exactly one
  \<open>PositionedChar\<close> per byte of \<open>raw\<close>, in the order of the bytes, when the width
  grabber returns a width for every code that \<open>Decode\<close> asks it: the byte itself for the
  table-based and the pass-through encoder, the rune that the \<open>Differences\<close> array gives
  the byte for the \<open>Differences\<close> encoder (every element of the array being fetched).
  When \<open>Width\<close> panics on one of these codes, \<open>Decode\<close> panics. The simple width
  grabber panics exactly on the codes from \<open>first\<close> up to \<open>last\<close> whose index
  \<open>code - first\<close> is not below the length of \<open>widths\<close>.
\<close>

theorem Decode_one_char_per_byte:
  "((\<forall>c\<in>set raw. \<not> isl (Width wg (of_char c))) \<longrightarrow>
       byteEncoder_Decode table wg raw =
         Inr (map (\<lambda>c. PositionedChar [table c] (projr (Width wg (of_char c)))) raw)
       \<and> nopEncoder_Decode wg raw =
         Inr (map (\<lambda>c. PositionedChar [of_char c] (projr (Width wg (of_char c)))) raw))
   \<and> ((\<exists>c\<in>set raw. isl (Width wg (of_char c))) \<longrightarrow>
       isl (byteEncoder_Decode table wg raw) \<and> isl (nopEncoder_Decode wg raw))
   \<and> ((\<forall>j. 0 \<le> j \<and> j < Len v \<longrightarrow> (\<exists>x. IndexV r v j = Some (Inr x))) \<longrightarrow>
       (\<forall>c. \<exists>ch. diffScan nameToRune r v c (- 1) (of_char c) 0 = Some (Inr ch))
       \<and> ((\<forall>c\<in>set raw. \<not> isl (Width wg (word_of_int
               (projr (the (diffScan nameToRune r v c (- 1) (of_char c) 0)))))) \<longrightarrow>
            dictEncoder_Decode nameToRune r wg v raw =
              Some (Inr (map (\<lambda>c. PositionedChar
                [projr (the (diffScan nameToRune r v c (- 1) (of_char c) 0))]
                (projr (Width wg (word_of_int
                   (projr (the (diffScan nameToRune r v c (- 1) (of_char c) 0))))))) raw)))
       \<and> ((\<exists>c\<in>set raw. isl (Width wg (word_of_int
               (projr (the (diffScan nameToRune r v c (- 1) (of_char c) 0)))))) \<longrightarrow>
            (\<exists>e. dictEncoder_Decode nameToRune r wg v raw = Some (Inl e))))
   \<and> isl (Width (DefaultWidthGrabber first last' widths) code)
       = (first \<le> code \<and> code < last' \<and> length widths \<le> unat (code - first))"
proof -
  have ok: "(\<forall>c\<in>set raw. \<not> isl (Width wg (of_char c))) \<longrightarrow>
       byteEncoder_Decode table wg raw =
         Inr (map (\<lambda>c. PositionedChar [table c] (projr (Width wg (of_char c)))) raw)
       \<and> nopEncoder_Decode wg raw =
         Inr (map (\<lambda>c. PositionedChar [of_char c] (projr (Width wg (of_char c)))) raw)"
    using byteEncoder_Decode_total nopEncoder_Decode_total by blast
  have panics: "(\<exists>c\<in>set raw. isl (Width wg (of_char c))) \<longrightarrow>
       isl (byteEncoder_Decode table wg raw) \<and> isl (nopEncoder_Decode wg raw)"
    using byteEncoder_Decode_panics nopEncoder_Decode_panics by blast
  have dict: "(\<forall>j. 0 \<le> j \<and> j < Len v \<longrightarrow> (\<exists>x. IndexV r v j = Some (Inr x))) \<longrightarrow>
       (\<forall>c. \<exists>ch. diffScan nameToRune r v c (- 1) (of_char c) 0 = Some (Inr ch))
       \<and> ((\<forall>c\<in>set raw. \<not> isl (Width wg (word_of_int
               (projr (the (diffScan nameToRune r v c (- 1) (of_char c) 0)))))) \<longrightarrow>
            dictEncoder_Decode nameToRune r wg v raw =
              Some (Inr (map (\<lambda>c. PositionedChar
                [projr (the (diffScan nameToRune r v c (- 1) (of_char c) 0))]
                (projr (Width wg (word_of_int
                   (projr (the (diffScan nameToRune r v c (- 1) (of_char c) 0))))))) raw)))
       \<and> ((\<exists>c\<in>set raw. isl (Width wg (word_of_int
               (projr (the (diffScan nameToRune r v c (- 1) (of_char c) 0)))))) \<longrightarrow>
            (\<exists>e. dictEncoder_Decode nameToRune r wg v raw = Some (Inl e)))"
  proof
    assume idx: "\<forall>j. 0 \<le> j \<and> j < Len v \<longrightarrow> (\<exists>x. IndexV r v j = Some (Inr x))"
    have a: "\<forall>c. \<exists>ch. diffScan nameToRune r v c (- 1) (of_char c) 0 = Some (Inr ch)"
      using diffScan_returns [OF idx, of 0 nameToRune] by simp
    have b: "(\<forall>c\<in>set raw. \<not> isl (Width wg (word_of_int
               (projr (the (diffScan nameToRune r v c (- 1) (of_char c) 0)))))) \<longrightarrow>
            dictEncoder_Decode nameToRune r wg v raw =
              Some (Inr (map (\<lambda>c. PositionedChar
                [projr (the (diffScan nameToRune r v c (- 1) (of_char c) 0))]
                (projr (Width wg (word_of_int
                   (projr (the (diffScan nameToRune r v c (- 1) (of_char c) 0))))))) raw))"
      using dictEncoder_Decode_asked [OF idx] by blast
    have c: "(\<exists>c\<in>set raw. isl (Width wg (word_of_int
               (projr (the (diffScan nameToRune r v c (- 1) (of_char c) 0)))))) \<longrightarrow>
            (\<exists>e. dictEncoder_Decode nameToRune r wg v raw = Some (Inl e))"
      using dictEncoder_Decode_panics [OF idx] by blast
    show "(\<forall>c. \<exists>ch. diffScan nameToRune r v c (- 1) (of_char c) 0 = Some (Inr ch))
       \<and> ((\<forall>c\<in>set raw. \<not> isl (Width wg (word_of_int
               (projr (the (diffScan nameToRune r v c (- 1) (of_char c) 0)))))) \<longrightarrow>
            dictEncoder_Decode nameToRune r wg v raw =
              Some (Inr (map (\<lambda>c. PositionedChar
                [projr (the (diffScan nameToRune r v c (- 1) (of_char c) 0))]
                (projr (Width wg (word_of_int
                   (projr (the (diffScan nameToRune r v c (- 1) (of_char c) 0))))))) raw)))
       \<and> ((\<exists>c\<in>set raw. isl (Width wg (word_of_int
               (projr (the (diffScan nameToRune r v c (- 1) (of_char c) 0)))))) \<longrightarrow>
            (\<exists>e. dictEncoder_Decode nameToRune r wg v raw = Some (Inl e)))"
      by (rule conjI [OF a conjI [OF b c]])
  qed
  show ?thesis
    by (rule conjI [OF ok conjI [OF panics conjI [OF dict Width_Default_panics]]])
qed

text \<open>The \<open>Differences\<close> array of the examples, fetched and scanned.\<close>

lemma greekDifferences_fetched:
  "\<forall>j. 0 \<le> j \<and> j < Len greekDifferences \<longrightarrow>
      (\<exists>x. IndexV twoPages greekDifferences j = Some (Inr x))"
proof (intro allI impI)
  fix j :: int
  assume "0 \<le> j \<and> j < Len greekDifferences"
  then have "0 \<le> j \<and> j < 3"
    by (simp add: greekDifferences_def Len_def)
  then have "j = 0 \<or> j = 1 \<or> j = 2"
    by arith
  then show "\<exists>x. IndexV twoPages greekDifferences j = Some (Inr x)"
    by (elim disjE)
      (simp_all add: greekDifferences_def IndexV_def Index_def resolve.simps)
qed

lemma greekDifferences_runes:
  "diffScan greekNames twoPages greekDifferences CHR ''A'' (- 1) 65 0 = Some (Inr 913)"
  "diffScan greekNames twoPages greekDifferences CHR ''B'' (- 1) 66 0 = Some (Inr 914)"
  by (simp_all add: diffScan.simps greekDifferences_def greekNames_def Len_def IndexV_def
      Index_def resolve.simps bindR_def Kind_def Int64V_def NameV_def)

theorem Decode_one_char_per_byte_witness:
  "nopEncoder_Decode (DefaultWidthGrabber 65 70 [500]) ''AA''
     = Inr [PositionedChar [65] 500, PositionedChar [65] 500]
   \<and> byteEncoder_Decode of_char (DefaultWidthGrabber 65 70 [500]) ''AA''
     = Inr [PositionedChar [65] 500, PositionedChar [65] 500]
   \<and> isl (nopEncoder_Decode (DefaultWidthGrabber 65 70 [500]) ''AB'')
   \<and> isl (byteEncoder_Decode of_char (DefaultWidthGrabber 65 70 [500]) ''AB'')
   \<and> dictEncoder_Decode greekNames twoPages (DefaultWidthGrabber 65 70 [500])
        greekDifferences ''AB''
     = Some (Inr [PositionedChar [913] 0, PositionedChar [914] 0])
   \<and> (\<exists>e. dictEncoder_Decode greekNames twoPages (DefaultWidthGrabber 900 1000 [])
        greekDifferences ''A'' = Some (Inl e))
   \<and> isl (Width (DefaultWidthGrabber 65 70 [500]) 66)"
  using
    Decode_one_char_per_byte [of "''AA''" "DefaultWidthGrabber 65 70 [500]" of_char
      greekDifferences twoPages greekNames 65 70 "[500]" 66]
    Decode_one_char_per_byte [of "''AB''" "DefaultWidthGrabber 65 70 [500]" of_char
      greekDifferences twoPages greekNames 65 70 "[500]" 66]
    Decode_one_char_per_byte [of "''A''" "DefaultWidthGrabber 900 1000 []" of_char
      greekDifferences twoPages greekNames 65 70 "[500]" 66]
    greekDifferences_fetched
  by (simp add: greekDifferences_runes)

text \<open>
  The claim as stated, for any bytes whatever, fails on \<open>shortWidthsFont\<close>: the font
  gets the pass-through encoder with the simple width grabber for the codes 65 to 70 and
  one width. \<open>Decode\<close> of the bytes \<open>AB\<close> does not return two characters: \<open>Width(66)\<close>
  reads \<open>widths[1]\<close> and panics. The table-based and the \<open>Differences\<close> encoder do the
  same with this grabber.
\<close>

theorem Decode_panics_counterexample:
  "FontFromValue noCmap twoPages shortWidthsFont
     = Some (Inr (Font shortWidthsFont (nopEncoder (DefaultWidthGrabber 65 70 [500]))))
   \<and> nopEncoder_Decode (DefaultWidthGrabber 65 70 [500]) ''AB''
       = Inl (Panic ''index out of range'')
   \<and> byteEncoder_Decode of_char (DefaultWidthGrabber 65 70 [500]) ''AB''
       = Inl (Panic ''index out of range'')
   \<and> dictEncoder_Decode greekNames twoPages (DefaultWidthGrabber 65 70 [500]) NullValue ''AB''
       = Some (Inl (Panic ''index out of range''))
   \<and> nopEncoder_Decode (DefaultWidthGrabber 65 70 [500]) ''AA''
       = Inr [PositionedChar [65] 500, PositionedChar [65] 500]"
proof (intro conjI)
  show "FontFromValue noCmap twoPages shortWidthsFont
     = Some (Inr (Font shortWidthsFont (nopEncoder (DefaultWidthGrabber 65 70 [500]))))"
    by (simp add: FontFromValue_def CreateCIDWidthGrabber_def CreateDefaultWidthGrabber_def
      Encoder_def toUnicodeEncoder_def shortWidthsFont_def noCmap_def KeyV_def Key_def
      dictGet_def resolve.simps Kind_def Int64V_def NameV_def Len_def NullValue_def
      IndexV_def Index_def Float64_def)
  show "nopEncoder_Decode (DefaultWidthGrabber 65 70 [500]) ''AB''
       = Inl (Panic ''index out of range'')"
    by simp
  show "byteEncoder_Decode of_char (DefaultWidthGrabber 65 70 [500]) ''AB''
       = Inl (Panic ''index out of range'')"
    by simp
  show "dictEncoder_Decode greekNames twoPages (DefaultWidthGrabber 65 70 [500]) NullValue ''AB''
       = Some (Inl (Panic ''index out of range''))"
    by (simp add: diffScan.simps Len_def NullValue_def)
  show "nopEncoder_Decode (DefaultWidthGrabber 65 70 [500]) ''AA''
       = Inr [PositionedChar [65] 500, PositionedChar [65] 500]"
    by simp
qed

section \<open>Per-object keys\<close>

text \<open>Two digests of the test suite of RFC 1321, computed by the definition.\<close>

lemma md5_test_suite:
  "md5 [] = [0xd4, 0x1d, 0x8c, 0xd9, 0x8f, 0x00, 0xb2, 0x04,
             0xe9, 0x80, 0x09, 0x98, 0xec, 0xf8, 0x42, 0x7e]"
  "md5 (map of_char ''abc'') = [0x90, 0x01, 0x50, 0x98, 0x3c, 0xd2, 0x4f, 0xb0,
             0xd6, 0x96, 0x3f, 0x7d, 0x28, 0xe1, 0x7f, 0x72]"
  by code_simp+

lemma length_md5: "length (md5 msg) = 16"
  by (simp add: md5_def Let_def bytes_of_word32_def split: prod.splits)

lemma ucast_drop_bit_byte:
  "(ucast (drop_bit n w) :: 8 word) = word_of_nat (unat w div 2 ^ n mod 256)"
proof -
  have u: "unat (drop_bit n w) = unat w div 2 ^ n"
    by (subst unat_drop_bit_eq) (rule drop_bit_eq_div)
  have "(ucast (drop_bit n w) :: 8 word) = word_of_nat (unat (drop_bit n w))"
    by simp
  also have "\<dots> = word_of_nat (unat w div 2 ^ n)"
    by (simp only: u)
  also have "\<dots> = word_of_nat (unat w div 2 ^ n mod 256)"
    by (simp add: word_of_nat_eq_iff take_bit_eq_mod)
  finally show ?thesis .
qed

lemma lowBytesLE_3: "lowBytesLE 3 (unat w) = [ucast w, ucast (drop_bit 8 w), ucast (drop_bit 16 w)]"
proof -
  have "lowBytesLE 3 x = [word_of_nat (x mod 256), word_of_nat (x div 256 mod 256),
      word_of_nat (x div 65536 mod 256)]" for x
  proof -
    have "x div 256 div 256 = x div 65536"
      by (simp add: div_mult2_eq [symmetric])
    moreover have "lowBytesLE 3 x = lowBytesLE (Suc (Suc (Suc 0))) x"
      by (simp only: numeral_3_eq_3)
    ultimately show ?thesis
      by (simp only: lowBytesLE.simps)
  qed
  then show ?thesis
    using ucast_drop_bit_byte [of 0 w] ucast_drop_bit_byte [of 8 w] ucast_drop_bit_byte [of 16 w]
    by simp
qed

lemma lowBytesLE_2: "lowBytesLE 2 (unat w) = [ucast w, ucast (drop_bit 8 w)]"
proof -
  have "lowBytesLE 2 x = [word_of_nat (x mod 256), word_of_nat (x div 256 mod 256)]" for x
  proof -
    have "lowBytesLE 2 x = lowBytesLE (Suc (Suc 0)) x"
      by (simp only: numeral_2_eq_2)
    then show ?thesis
      by (simp only: lowBytesLE.simps)
  qed
  then show ?thesis
    using ucast_drop_bit_byte [of 0 w] ucast_drop_bit_byte [of 8 w]
    by simp
qed

text \<open>
  C3, as the code has it. For every reference \<open>(id, gen)\<close> the per-object key is the
  MD5 digest of the file key followed by the three low-order bytes of \<open>id\<close> and the two
  low-order bytes of \<open>gen\<close>, least significant first, and by \<open>sAlT\<close> for AES. It
  is the whole digest, sixteen bytes whatever the length of the file key: nothing is cut
  off.
\<close>

theorem cryptKey_full_digest:
  "cryptKey k aes p =
     md5 (k @ lowBytesLE 3 (unat (id' p)) @ lowBytesLE 2 (unat (gen p))
            @ (if aes then map of_char ''sAlT'' else []))
   \<and> length (cryptKey k aes p) = 16"
  by (simp add: cryptKey_def lowBytesLE_3 lowBytesLE_2 length_md5)

text \<open>
  With a file key of five bytes (40 bits) the claim has a key of \<open>min (5 + 5) 16 = 10\<close>
  bytes; the code returns sixteen.
\<close>

theorem cryptKey_not_truncated_counterexample:
  "cryptKey [1, 2, 3, 4, 5] False \<lparr>id' = 1, gen = 0\<rparr>
       = [0x7e, 0x1a, 0x77, 0xf3, 0xed, 0xe5, 0x00, 0xfa,
          0x21, 0x0b, 0x3a, 0x51, 0xd4, 0x6d, 0x9d, 0x6c]
   \<and> length (cryptKey [1, 2, 3, 4, 5] False \<lparr>id' = 1, gen = 0\<rparr>) = 16
   \<and> cryptKey [1, 2, 3, 4, 5] False \<lparr>id' = 1, gen = 0\<rparr>
       \<noteq> take (min (length [1, 2, 3, 4, 5 :: 8 word] + 5) 16)
            (md5 ([1, 2, 3, 4, 5] @ lowBytesLE 3 1 @ lowBytesLE 2 0))"
proof (intro conjI)
  show "cryptKey [1, 2, 3, 4, 5] False \<lparr>id' = 1, gen = 0\<rparr>
       = [0x7e, 0x1a, 0x77, 0xf3, 0xed, 0xe5, 0x00, 0xfa,
          0x21, 0x0b, 0x3a, 0x51, 0xd4, 0x6d, 0x9d, 0x6c]"
    by code_simp
  show l: "length (cryptKey [1, 2, 3, 4, 5] False \<lparr>id' = 1, gen = 0\<rparr>) = 16"
    by (simp add: cryptKey_def length_md5)
  have s: "length (take (min (length [1, 2, 3, 4, 5 :: 8 word] + 5) 16)
            (md5 ([1, 2, 3, 4, 5] @ lowBytesLE 3 1 @ lowBytesLE 2 0))) = 10"
    by (simp add: length_md5)
  show "cryptKey [1, 2, 3, 4, 5] False \<lparr>id' = 1, gen = 0\<rparr>
       \<noteq> take (min (length [1, 2, 3, 4, 5 :: 8 word] + 5) 16)
            (md5 ([1, 2, 3, 4, 5] @ lowBytesLE 3 1 @ lowBytesLE 2 0))"
  proof
    assume "cryptKey [1, 2, 3, 4, 5] False \<lparr>id' = 1, gen = 0\<rparr>
       = take (min (length [1, 2, 3, 4, 5 :: 8 word] + 5) 16)
            (md5 ([1, 2, 3, 4, 5] @ lowBytesLE 3 1 @ lowBytesLE 2 0))"
    then have "length (cryptKey [1, 2, 3, 4, 5] False \<lparr>id' = 1, gen = 0\<rparr>) = 10"
      using s by simp
    with l show False by simp
  qed
qed

section \<open>The cross-reference table keeps what it holds\<close>

lemma growTable_keeps:
  "x < length table \<Longrightarrow> x < length (growTable table y) \<and> growTable table y ! x = table ! x"
  by (auto simp: growTable_def nth_append)

lemma growTable_slot: "0 \<le> y \<Longrightarrow> nat y < length (growTable table y)"
  by (auto simp: growTable_def)

text \<open>
  A slot of an xref table counts as taken when its \<open>offset\<close> is not 0: such a slot
  comes through every later entry, subsection and section unchanged.
\<close>

lemma readXrefTableEntries_keeps:
  "readXrefTableEntries start i k b table = Inr (table', b') \<Longrightarrow>
     x < length table \<Longrightarrow> offset (table ! x) \<noteq> 0 \<Longrightarrow>
     x < length table' \<and> table' ! x = table ! x"
proof (induction k arbitrary: i b table)
  case 0
  then show ?case by simp
next
  case (Suc k)
  from Suc.prems(1) obtain t1 t2 t3 b0 where b: "b = t1 # t2 # t3 # b0"
    by (cases b; cases "tl b"; cases "tl (tl b)") auto
  define y where "y = int64_wrap (start + i)"
  define table1 where "table1 = growTable table y"
  have keep1: "x < length table1" "table1 ! x = table ! x"
    using growTable_keeps [OF Suc.prems(2)] by (simp_all add: table1_def)
  with Suc.prems(3) have off1: "offset (table1 ! x) \<noteq> 0" by simp
  from Suc.prems(1) obtain tb where
    rec: "readXrefTableEntries start (i + 1) k b0 tb = Inr (table', b')"
    and tb: "tb = table1 \<or> (\<exists>e. 0 \<le> y \<and> offset (table1 ! nat y) = 0 \<and> tb = table1[nat y := e])"
    unfolding b
    by (auto simp: Let_def y_def table1_def split: option.splits if_splits)
  from tb have a: "x < length tb \<and> tb ! x = table1 ! x \<and> offset (tb ! x) \<noteq> 0"
  proof
    assume "tb = table1"
    with keep1 off1 show ?thesis by simp
  next
    assume "\<exists>e. 0 \<le> y \<and> offset (table1 ! nat y) = 0 \<and> tb = table1[nat y := e]"
    then obtain e where e: "offset (table1 ! nat y) = 0" "tb = table1[nat y := e]" by blast
    with off1 have "nat y \<noteq> x" by auto
    with e keep1 off1 show ?thesis by simp
  qed
  then have a1: "x < length tb" and a2: "tb ! x = table1 ! x" and a3: "offset (tb ! x) \<noteq> 0"
    by blast+
  from Suc.IH [OF rec a1 a3] a2 keep1 show ?case by simp
qed

lemma readXrefTableData_keeps:
  "readXrefTableData b table = Inr (table', b') \<Longrightarrow>
     x < length table \<Longrightarrow> offset (table ! x) \<noteq> 0 \<Longrightarrow>
     x < length table' \<and> table' ! x = table ! x"
proof (induction b table rule: readXrefTableData.induct)
  case (1 table)
  then show ?case by simp
next
  case (2 tok b table)
  show ?case
  proof (cases "tok = PKeyword ''trailer''")
    case True
    with 2 show ?thesis by simp
  next
    case False
    with "2.prems"(1) obtain t2 b2 start n tb b3 where
      b: "b = t2 # b2" and ints: "asInt64 tok = Some start" "asInt64 t2 = Some n"
      and ent: "readXrefTableEntries start 0 (nat n) b2 table = Inr (tb, b3)"
      and rec: "readXrefTableData b3 tb = Inr (table', b')"
      by (auto split: list.splits option.splits sum.splits)
    from readXrefTableEntries_keeps [OF ent "2.prems"(2,3)]
    have tb: "x < length tb" "tb ! x = table ! x" by simp_all
    with "2.prems"(3) have "offset (tb ! x) \<noteq> 0" by simp
    from "2.IH" [OF False b refl ints(1) ints(2) ent refl rec tb(1) this] tb
    show ?thesis by simp
  qed
qed

lemma readXrefTablePrev_keeps_aux:
  assumes "readXrefTablePrev tokensAt readObject table prevoff = Some res"
  shows "\<forall>t'. res = Inr t' \<longrightarrow> x < length table \<longrightarrow> offset (table ! x) \<noteq> 0 \<longrightarrow>
        x < length t' \<and> t' ! x = table ! x"
proof (rule readXrefTablePrev.raw_induct
    [where P = "\<lambda>ta ro (t :: xref list) po (res :: error + xref list).
       \<forall>t'. res = Inr t' \<longrightarrow> x < length t \<longrightarrow> offset (t ! x) \<noteq> 0 \<longrightarrow>
          x < length t' \<and> t' ! x = t ! x", OF _ assms], goal_cases)
  case (1 loop ta ro t po res)
  show ?case
  proof (intro allI impI)
    fix t'
    assume res: "res = Inr t'" and x: "x < length t" and off: "offset (t ! x) \<noteq> 0"
    show "x < length t' \<and> t' ! x = t ! x"
    proof (cases "po = PNull")
      case True
      with 1(2) res x show ?thesis by simp
    next
      case False
      with 1(2) res obtain b t1 b1 trailer where
        data: "readXrefTableData b t = Inr (t1, b1)"
        and rec: "loop ta ro t1 (dictGet trailer ''Prev'') = Some (Inr t')"
        by (auto split: option.splits list.splits if_splits sum.splits)
      from readXrefTableData_keeps [OF data x off]
      have t1: "x < length t1" "t1 ! x = t ! x" by simp_all
      with off have "offset (t1 ! x) \<noteq> 0" by simp
      with 1(1) [OF rec] t1 show ?thesis by simp
    qed
  qed
qed

lemma readXrefTablePrev_keeps:
  assumes "readXrefTablePrev tokensAt readObject table prevoff = Some (Inr table')"
    and "x < length table" and "offset (table ! x) \<noteq> 0"
  shows "x < length table' \<and> table' ! x = table ! x"
  using readXrefTablePrev_keeps_aux [OF assms(1)] assms(2,3) by simp

text \<open>
  The chain as a whole: a slot that the newest section filled with an offset other than 0
  is, in the table that \<open>readXrefTable\<close> returns, as the newest section wrote it.
\<close>

lemma readXrefTable_newest_kept:
  assumes "readXrefTable tokensAt readObject b = Some (Inr (table, tp, trailer))"
    and "readXrefTableData b [] = Inr (t0, b0)"
    and "x < length table" and "x < length t0" and "offset (t0 ! x) \<noteq> 0"
  shows "table ! x = t0 ! x"
proof -
  from assms(1,2) obtain t2 where
    prev: "readXrefTablePrev tokensAt readObject t0 (dictGet trailer ''Prev'') = Some (Inr t2)"
    and fin: "table = t2 \<or> (\<exists>n. table = take n t2)"
    by (auto simp: readXrefTable_def split: sum.splits option.splits if_splits)
  from readXrefTablePrev_keeps [OF prev assms(4,5)]
  have t2: "x < length t2" "t2 ! x = t0 ! x" by simp_all
  from fin assms(3) have "table ! x = t2 ! x" by auto
  with t2 show ?thesis by simp
qed

text \<open>
  A slot of the table of an xref stream counts as taken when its \<open>ptr\<close> is not
  \<open>pdfobjptr{}\<close>; the free slots that \<open>readXrefStreamData\<close> marks are among them.
\<close>

lemma growSlice_keeps:
  "growSlice growcap x table = (elems', c') \<Longrightarrow> i < length (fst table) \<Longrightarrow>
     i < length elems' \<and> elems' ! i = fst table ! i"
proof (induction growcap x table rule: growSlice.induct)
  case (1 growcap x elems c)
  show ?case
  proof (cases "int c \<le> x")
    case True
    with "1.prems"(1) have
      "growSlice growcap x
         (elems @ replicate (c - length elems) zeroxref @ [zeroxref], max (Suc c) (growcap c))
       = (elems', c')"
      by (subst (asm) growSlice.simps) simp
    from "1.IH" [OF True this] "1.prems"(2) show ?thesis
      by (simp add: nth_append)
  next
    case False
    with "1.prems" show ?thesis
      by (subst (asm) growSlice.simps) simp
  qed
qed

lemma xrefStreamRecord_keeps:
  assumes "xrefStreamRecord growcap w buf x (elems, c) = Inr (elems', c')"
    and "i < length elems" and "ptr (elems ! i) \<noteq> zeroptr"
  shows "i < length elems' \<and> elems' ! i = elems ! i"
proof -
  obtain e1 c1 where g: "growSlice growcap x (elems, c) = (e1, c1)"
    by (cases "growSlice growcap x (elems, c)")
  from growSlice_keeps [OF g] assms(2)
  have e1: "i < length e1" "e1 ! i = elems ! i" by simp_all
  from assms(1) g have "elems' = e1 \<or> (\<exists>e. ptr (e1 ! nat x) = zeroptr \<and> elems' = e1[nat x := e])"
    by (auto simp: xrefStreamRecord_def split: option.splits if_splits)
  then show ?thesis
  proof
    assume "elems' = e1"
    with e1 show ?thesis by simp
  next
    assume "\<exists>e. ptr (e1 ! nat x) = zeroptr \<and> elems' = e1[nat x := e]"
    then obtain e where e: "ptr (e1 ! nat x) = zeroptr" "elems' = e1[nat x := e]" by blast
    with e1 assms(3) have "nat x \<noteq> i" by auto
    with e e1 show ?thesis by simp
  qed
qed

lemma xrefStreamRecords_keeps:
  "xrefStreamRecords growcap w wtotal start j k data (elems, c) = Inr ((elems', c'), data') \<Longrightarrow>
     i < length elems \<Longrightarrow> ptr (elems ! i) \<noteq> zeroptr \<Longrightarrow>
     i < length elems' \<and> elems' ! i = elems ! i"
proof (induction k arbitrary: j data elems c)
  case 0
  then show ?case by simp
next
  case (Suc k)
  from Suc.prems(1) obtain e1 c1 where
    one: "xrefStreamRecord growcap w (take wtotal data) (int64_wrap (start + j)) (elems, c)
            = Inr (e1, c1)"
    and rec: "xrefStreamRecords growcap w wtotal start (j + 1) k (drop wtotal data) (e1, c1)
            = Inr ((elems', c'), data')"
    by (auto split: if_splits sum.splits)
  from xrefStreamRecord_keeps [OF one Suc.prems(2,3)]
  have e1: "i < length e1" "e1 ! i = elems ! i" by simp_all
  with Suc.prems(3) have "ptr (e1 ! i) \<noteq> zeroptr" by simp
  from Suc.IH [OF rec e1(1) this] e1 show ?case by simp
qed

lemma xrefStreamIndex_keeps:
  "xrefStreamIndex growcap w wtotal index' data (elems, c) = Inr (elems', c') \<Longrightarrow>
     i < length elems \<Longrightarrow> ptr (elems ! i) \<noteq> zeroptr \<Longrightarrow>
     i < length elems' \<and> elems' ! i = elems ! i"
proof (induction growcap w wtotal index' data "(elems, c)" arbitrary: elems c
    rule: xrefStreamIndex.induct)
  case (1 growcap w wtotal i0 i1 index' data)
  from "1.prems"(1) obtain start n e1 c1 data1 where
    ints: "asInt64 i0 = Some start" "asInt64 i1 = Some n"
    and recs: "xrefStreamRecords growcap w wtotal start 0 (nat n) data (elems, c)
                 = Inr ((e1, c1), data1)"
    and rec: "xrefStreamIndex growcap w wtotal index' data1 (e1, c1) = Inr (elems', c')"
    by (auto split: option.splits sum.splits)
  from xrefStreamRecords_keeps [OF recs "1.prems"(2,3)]
  have e1: "i < length e1" "e1 ! i = elems ! i" by simp_all
  with "1.prems"(3) have "ptr (e1 ! i) \<noteq> zeroptr" by simp
  from "1.hyps" [OF refl ints recs refl rec e1(1) this] e1
  show ?case by simp
qed simp_all

lemma readXrefStreamData_keeps:
  assumes "readXrefStreamData growcap decoded hdr (elems, c) sz = Inr (elems', c')"
    and "i < length elems" and "ptr (elems ! i) \<noteq> zeroptr"
  shows "i < length elems' \<and> elems' ! i = elems ! i"
proof -
  define index' where "index' =
    (case dictGet hdr ''Index'' of PArray (a # as) \<Rightarrow> a # as | _ \<Rightarrow> [PInt 0, PInt sz])"
  have "readXrefStreamData growcap decoded hdr (elems, c) sz =
     (if odd (length index') then Inl (Errorf ''invalid Index array'')
      else
        (case dictGet hdr ''W'' of
           PArray ww \<Rightarrow>
             if (\<exists>x\<in>set ww. asInt64 x = None) \<or> length ww < 3 then Inl (Errorf ''invalid W array'')
             else
               if int64_wrap (sum_list (map (\<lambda>x. the (asInt64 x)) ww)) < 0
               then Inl (Panic ''makeslice: len out of range'')
               else
                 (case decoded of
                    Inl msg \<Rightarrow> Inl (Panic msg)
                  | Inr data \<Rightarrow>
                      xrefStreamIndex growcap (map (\<lambda>x. the (asInt64 x)) ww)
                        (nat (int64_wrap (sum_list (map (\<lambda>x. the (asInt64 x)) ww))))
                        index' data (elems, c))
         | _ \<Rightarrow> Inl (Errorf ''xref stream missing W array'')))"
    by (simp only: readXrefStreamData_def Let_def index'_def)
  with assms(1) obtain w wtotal data where
    "xrefStreamIndex growcap w wtotal index' data (elems, c) = Inr (elems', c')"
    by (auto split: pdfobject.splits if_splits sum.splits simp del: xrefStreamIndex.simps)
  from xrefStreamIndex_keeps [OF this assms(2,3)] show ?thesis .
qed

text \<open>
  In the loop over \<open>Prev\<close> of \<open>readXrefStream\<close> the test of the type of the previous
  stream never passes (a stream is not a name): the loop returns a table only when there
  is no \<open>Prev\<close> at all, and then it is the table it was given.
\<close>

lemma readXrefStreamPrev_only_null:
  assumes "readXrefStreamPrev growcap readObjectAt decodedOf sz table prevoff = Some (Inr table')"
  shows "prevoff = PNull \<and> table' = table"
  using assms
  by (subst (asm) readXrefStreamPrev.simps)
    (auto simp: Kind_def nameOfSelf_def Let_def
      split: if_splits option.splits sum.splits pdfobject.splits)

lemma readXrefStream_chain_refused:
  assumes "dictGet hdr ''Prev'' \<noteq> PNull"
  shows "readXrefStream growcap readObjectAt decodedOf (Inr (PObjDef p (PStream hdr sp soff)))
           \<noteq> Some (Inr res)"
proof
  assume "readXrefStream growcap readObjectAt decodedOf (Inr (PObjDef p (PStream hdr sp soff)))
           = Some (Inr res)"
  then obtain sz table t' where
    "readXrefStreamPrev growcap readObjectAt decodedOf sz table (dictGet hdr ''Prev'')
       = Some (Inr t')"
    by (auto simp: readXrefStream_def split: if_splits option.splits sum.splits prod.splits)
  from readXrefStreamPrev_only_null [OF this] assms show False by simp
qed








end
